theory Spec2Isabelle
  imports Main "HOL-Library.Sublist"
begin

section \<open>JSI dispatch: the data model of \<open>yt_dlp/jsinterp/common.py\<close>\<close>

text \<open>
  The module keeps two process-wide registries, \<open>_JSI_HANDLERS\<close> (an insertion-ordered
  dict from backend key to backend class) and \<open>_JSI_PREFERENCES\<close> (a set of scoring
  closures), and one class, \<open>JSIWrapper\<close>, that selects, scores and tries backends.
  The registries are passed explicitly to every function that reads them. A leading
  underscore of a Python name is dropped, since an Isabelle name cannot start with one.
\<close>

subsection \<open>Python values, exceptions, backend classes\<close>

datatype pyval = PyNone | PyStr string | PyObj string

type_synonym kwargs = "(string \<times> pyval) list"

text \<open>A feature requirement of \<open>require_features\<close>: \<open>str | Iterable[str]\<close>.\<close>

datatype str_or_iter = Str string | Iter "string list"

text \<open>
  Every \<open>ExtractorError\<close> raised by the module, one constructor per message template;
  the payload is what the f-string interpolates. \<open>Backend_error\<close> is an
  \<open>ExtractorError\<close> raised by a backend's own operation.
\<close>

datatype extractor_error =
    Unsupported_features "string set" "string set"
  | No_JSI_supports_features "string set"
  | No_JSI_supports_method string "string list"
  | Not_available_for_testing string string
  | Feature_required str_or_iter string
  | No_available_JSI "string list"
  | Failed_to_perform string nat
  | Failed_to_perform_try_installing string nat "string list"
  | Does_not_support_features string "string set"
  | Backend_error string

datatype exc =
    ExtractorError extractor_error
  | TypeError string
  | KeyError string
  | AssertionError string
  | OtherException string

datatype call_result = Returns string | Raises exc

text \<open>
  A backend class (a subclass of \<open>JSI\<close>). Concrete backends are not part of the module:
  the result of the availability probe and the behaviour of each operation are fields of
  the descriptor. \<open>methods c m = None\<close> says that \<open>getattr(h, m, None)\<close> is not callable.
\<close>

record jsi_class =
  cls_name :: string
  SUPPORTED_FEATURES :: "string set"
  BASE_PREFERENCE :: int
  is_available :: bool
  methods :: "string \<Rightarrow> (pyval list \<Rightarrow> kwargs \<Rightarrow> call_result) option"

text \<open>
  \<open>JSI_NAME\<close> and \<open>JSI_KEY\<close> are both \<open>cls.__name__[:-3]\<close>. The assertion of \<open>JSI_KEY\<close>
  that the name ends with \<open>JSI\<close> is made where a class is registered (\<open>register_jsi\<close>).
\<close>

definition JSI_NAME :: "jsi_class \<Rightarrow> string" where
  "JSI_NAME c = take (length (cls_name c) - 3) (cls_name c)"

definition JSI_KEY :: "jsi_class \<Rightarrow> string" where
  "JSI_KEY c = take (length (cls_name c) - 3) (cls_name c)"

text \<open>An instance, as \<open>JSI.__init__\<close> leaves it.\<close>

record jsi =
  cls :: jsi_class
  url :: string
  timeout :: int
  jsi_features :: "string set"
  user_agent :: string

definition ALL_FEATURES :: "string set" where
  "ALL_FEATURES = {''wasm'', ''location'', ''dom'', ''cookies''}"

type_synonym registry = "(string \<times> jsi_class) list"

type_synonym preference = "jsi \<Rightarrow> string \<Rightarrow> pyval list \<Rightarrow> kwargs \<Rightarrow> int"

text \<open>An element of an include, exclude, order or fallback list: \<open>str | type[JSI] | JSI\<close>.\<close>

datatype jsi_or_key = JStr string | JCls jsi_class | JObj jsi

subsection \<open>Insertion-ordered dicts\<close>

text \<open>
  A Python dict is an association list with distinct keys in insertion order; storing
  under a key already present replaces the value and keeps the key's place.
\<close>

fun dict_set :: "'k \<Rightarrow> 'v \<Rightarrow> ('k \<times> 'v) list \<Rightarrow> ('k \<times> 'v) list" where
  "dict_set k v [] = [(k, v)]"
| "dict_set k v ((k', v') # d) = (if k' = k then (k, v) # d else (k', v') # dict_set k v d)"

subsection \<open>Key helpers and the eligibility lookup\<close>

fun jsi_key_of :: "jsi_or_key \<Rightarrow> string" where
  "jsi_key_of (JStr s) = s"
| "jsi_key_of (JCls c) = JSI_KEY c"
| "jsi_key_of (JObj h) = JSI_KEY (cls h)"

definition get_jsi_keys :: "jsi_or_key list \<Rightarrow> string list" where
  "get_jsi_keys jsi_or_keys = map jsi_key_of jsi_or_keys"

definition supports :: "registry \<Rightarrow> string set \<Rightarrow> string \<Rightarrow> bool" where
  "supports HANDLERS feats key =
     (case map_of HANDLERS key of
        None \<Rightarrow> False
      | Some c \<Rightarrow> feats \<subseteq> SUPPORTED_FEATURES c)"

definition filter_jsi_keys ::
    "registry \<Rightarrow> string set \<Rightarrow> jsi_or_key list \<Rightarrow> jsi_or_key list \<Rightarrow> string list" where
  "filter_jsi_keys HANDLERS feats only_include exclude =
     (let keys = map fst HANDLERS;
          keys = (if feats \<noteq> {} then filter (supports HANDLERS feats) keys else keys);
          keys = (if only_include \<noteq> []
                  then filter (\<lambda>key. key \<in> set (get_jsi_keys only_include)) keys else keys);
          keys = (if exclude \<noteq> []
                  then filter (\<lambda>key. key \<notin> set (get_jsi_keys exclude)) keys else keys)
      in keys)"

subsection \<open>Scoring functions\<close>

text \<open>
  \<open>order_to_pref\<close>: the dict comprehension over the reversed key list stores
  \<open>(i + 1) * multiplier\<close> under the key at index \<open>i\<close>; a later entry for the same key
  overwrites an earlier one.
\<close>

definition pref_score :: "string list \<Rightarrow> int \<Rightarrow> (string \<rightharpoonup> int)" where
  "pref_score keys multiplier =
     fold (\<lambda>(i, jsi_cls) d. d(jsi_cls \<mapsto> (int i + 1) * multiplier))
       (enumerate 0 (rev keys)) Map.empty"

definition order_to_pref :: "jsi_or_key list \<Rightarrow> int \<Rightarrow> preference" where
  "order_to_pref jsi_order multiplier =
     (\<lambda>h method_name args kw.
        case pref_score (get_jsi_keys jsi_order) multiplier (JSI_KEY (cls h)) of
          None \<Rightarrow> 0
        | Some v \<Rightarrow> v)"

text \<open>
  \<open>register_jsi_preference(*handlers)(pref_func)\<close> wraps \<open>pref_func\<close> so that it
  scores 0 for an instance of none of \<open>handlers\<close>, and adds the wrapper to
  \<open>_JSI_PREFERENCES\<close>. Each wrapper is a new closure, so the set of closures is a list
  here. Backend classes are told apart by name; subclassing between backends is not
  modelled.
\<close>

definition isinstance :: "jsi \<Rightarrow> jsi_class list \<Rightarrow> bool" where
  "isinstance h handlers = (cls_name (cls h) \<in> cls_name ` set handlers)"

definition restricted :: "jsi_class list \<Rightarrow> preference \<Rightarrow> preference" where
  "restricted handlers pref_func =
     (\<lambda>h method_name args kw.
        if handlers = [] \<or> isinstance h handlers
        then pref_func h method_name args kw else 0)"

definition register_jsi_preference ::
    "jsi_class list \<Rightarrow> preference \<Rightarrow> preference list \<Rightarrow> preference list" where
  "register_jsi_preference handlers pref_func PREFERENCES =
     PREFERENCES @ [restricted handlers pref_func]"

definition base_preference :: preference where
  "base_preference = (\<lambda>h method_name args kw. BASE_PREFERENCE (cls h))"

subsection \<open>Registration of a backend class\<close>

definition register_jsi :: "jsi_class \<Rightarrow> registry \<Rightarrow> exc + registry" where
  "register_jsi jsi_cls HANDLERS =
     (if drop (length (cls_name jsi_cls) - 3) (cls_name jsi_cls) \<noteq> ''JSI''
      then Inl (AssertionError ''JSI class names must end with JSI'')
      else if JSI_KEY jsi_cls \<in> fst ` set HANDLERS
      then Inl (AssertionError ''already registered'')
      else if \<not> SUPPORTED_FEATURES jsi_cls \<subseteq> ALL_FEATURES
      then Inl (AssertionError ''not declared in _All_FEATURES'')
      else Inr (HANDLERS @ [(JSI_KEY jsi_cls, jsi_cls)]))"

text \<open>What \<open>register_jsi\<close> maintains: keys are unique and each is the key of its class.\<close>

definition wf_registry :: "registry \<Rightarrow> bool" where
  "wf_registry HANDLERS =
     (distinct (map fst HANDLERS) \<and> list_all (\<lambda>(k, c). k = JSI_KEY c) HANDLERS)"

subsection \<open>The wrapper: construction\<close>

text \<open>The fields of \<open>YoutubeDL.params\<close> that the wrapper reads.\<close>

record downloader =
  jsi_preference :: "string list"
  test :: bool
  http_user_agent :: string

text \<open>
  What happens to backends, in order: a constructor call, an availability probe with
  its answer, an operation call with its arguments and its result.
\<close>

datatype event =
    Instantiate string
  | Is_available string bool
  | Call string string "pyval list" kwargs call_result

text \<open>\<open>fallback_jsi\<close>: a list of backends, or the literal \<open>'all'\<close>.\<close>

datatype fallback = Fallback_all | Fallback "jsi_or_key list"

record session =
  downloader :: downloader
  session_url :: string
  features :: "string set"
  handler_dict :: "(string \<times> jsi) list"
  preferences :: "preference list"
  fallback_jsi :: "string list"
  is_test :: bool

text \<open>\<open>JSI.__init__\<close>; \<open>user_agent or params['http_headers']['User-Agent']\<close>.\<close>

definition JSI_init ::
    "jsi_class \<Rightarrow> downloader \<Rightarrow> string \<Rightarrow> int \<Rightarrow> string set \<Rightarrow> string option \<Rightarrow> exc + jsi" where
  "JSI_init c dl u t feats ua =
     (if \<not> feats \<subseteq> SUPPORTED_FEATURES c
      then Inl (ExtractorError (Does_not_support_features (JSI_NAME c) feats))
      else Inr \<lparr>cls = c, url = u, timeout = t, jsi_features = feats,
                user_agent = (case ua of
                                None \<Rightarrow> http_user_agent dl
                              | Some a \<Rightarrow> if a = [] then http_user_agent dl else a)\<rparr>)"

text \<open>\<open>[_JSI_HANDLERS[key] for key in ...]\<close>: a missing key raises \<open>KeyError\<close>.\<close>

fun lookup_all :: "registry \<Rightarrow> string list \<Rightarrow> exc + jsi_class list" where
  "lookup_all HANDLERS [] = Inr []"
| "lookup_all HANDLERS (key # keys) =
     (case map_of HANDLERS key of
        None \<Rightarrow> Inl (KeyError key)
      | Some c \<Rightarrow>
          (case lookup_all HANDLERS keys of
             Inl e \<Rightarrow> Inl e
           | Inr cs \<Rightarrow> Inr (c # cs)))"

text \<open>
  The dict comprehension \<open>{cls.JSI_KEY: cls(...) for cls in handler_classes}\<close>: the
  classes are instantiated one after the other, a failing constructor aborts.
\<close>

fun instantiate_all ::
    "downloader \<Rightarrow> string \<Rightarrow> int \<Rightarrow> string set \<Rightarrow> string option \<Rightarrow> jsi_class list \<Rightarrow>
     (string \<times> jsi) list \<Rightarrow> event list \<times> (exc + (string \<times> jsi) list)" where
  "instantiate_all dl u t feats ua [] d = ([], Inr d)"
| "instantiate_all dl u t feats ua (c # cs) d =
     (case JSI_init c dl u t feats ua of
        Inl e \<Rightarrow> ([Instantiate (JSI_KEY c)], Inl e)
      | Inr h \<Rightarrow>
          (case instantiate_all dl u t feats ua cs (dict_set (JSI_KEY c) h d) of
             (tr, res) \<Rightarrow> (Instantiate (JSI_KEY c) # tr, res)))"

text \<open>
  \<open>JSIWrapper.__init__\<close>. The result is the constructor calls made and the new wrapper
  or the exception raised. Left out: the warnings and debug lines, the sanitising of the
  url (\<open>u\<close> stands for \<open>self._url\<close>), and \<open>jsi_params\<close>, the extra keyword arguments for
  the constructors of concrete backends. The removal of invalid keys from
  \<open>params['jsi_preference']\<close> is \<open>user_prefs.remove(invalid_key)\<close>, once per invalid
  entry.
\<close>

definition valid_user_prefs :: "registry \<Rightarrow> downloader \<Rightarrow> string list" where
  "valid_user_prefs HANDLERS dl =
     fold remove1 (filter (\<lambda>jsi_key. jsi_key \<notin> fst ` set HANDLERS) (jsi_preference dl))
       (jsi_preference dl)"

definition JSIWrapper_init ::
    "registry \<Rightarrow> preference list \<Rightarrow> downloader \<Rightarrow> string \<Rightarrow> string list \<Rightarrow>
     jsi_or_key list \<Rightarrow> jsi_or_key list \<Rightarrow> jsi_or_key list \<Rightarrow> fallback \<Rightarrow> int \<Rightarrow>
     string option \<Rightarrow> event list \<times> (exc + session)" where
  "JSIWrapper_init HANDLERS PREFERENCES dl u feature_list only_include exclude
       preferred_order fallback_jsi_arg t ua =
     (let feats = set feature_list in
      if feats - ALL_FEATURES \<noteq> {}
      then ([], Inl (ExtractorError (Unsupported_features (feats - ALL_FEATURES) ALL_FEATURES)))
      else
        (let user_prefs = valid_user_prefs HANDLERS dl in
         case lookup_all HANDLERS (filter_jsi_keys HANDLERS feats only_include exclude) of
           Inl e \<Rightarrow> ([], Inl e)
         | Inr handler_classes \<Rightarrow>
             if handler_classes = []
             then ([], Inl (ExtractorError (No_JSI_supports_features feats)))
             else
               (case instantiate_all dl u t feats ua handler_classes [] of
                  (tr, Inl e) \<Rightarrow> (tr, Inl e)
                | (tr, Inr insts) \<Rightarrow>
                    (tr, Inr \<lparr>downloader = dl, session_url = u, features = feats,
                       handler_dict = insts,
                       preferences =
                         [order_to_pref (map JStr user_prefs) 10000,
                          order_to_pref preferred_order 100] @ PREFERENCES,
                       fallback_jsi =
                         (case fallback_jsi_arg of
                            Fallback_all \<Rightarrow> get_jsi_keys (map JCls handler_classes)
                          | Fallback keys \<Rightarrow> get_jsi_keys keys),
                       is_test = test dl\<rparr>))))"

subsection \<open>The wrapper: choosing and trying handlers\<close>

text \<open>\<open>sum(pref_func(handler, method_name, args, kwargs) for pref_func in self.preferences)\<close>\<close>

definition combined_preference ::
    "session \<Rightarrow> jsi \<Rightarrow> string \<Rightarrow> pyval list \<Rightarrow> kwargs \<Rightarrow> int" where
  "combined_preference s h method_name args kw =
     sum_list (map (\<lambda>pref_func. pref_func h method_name args kw) (preferences s))"

text \<open>
  \<open>sorted(xs, key=..., reverse=True)\<close> is stable: elements with equal keys keep their
  order. So is insertion sort on the negated key.
\<close>

definition sorted_reverse :: "('a \<Rightarrow> int) \<Rightarrow> 'a list \<Rightarrow> 'a list" where
  "sorted_reverse key xs = sort_key (\<lambda>x. - key x) xs"

text \<open>
  \<open>preferences[h.JSI_KEY]\<close>: the dict is built from the very handlers that are sorted,
  so the key is present (lemma \<open>preference_dict_present\<close>) and the \<open>None\<close> branch is dead.
\<close>

definition preference_dict ::
    "session \<Rightarrow> string \<Rightarrow> pyval list \<Rightarrow> kwargs \<Rightarrow> jsi list \<Rightarrow> (string \<times> int) list" where
  "preference_dict s method_name args kw handlers =
     fold (\<lambda>handler d.
             dict_set (JSI_KEY (cls handler)) (combined_preference s handler method_name args kw) d)
       handlers []"

definition dict_get :: "(string \<times> int) list \<Rightarrow> string \<Rightarrow> int" where
  "dict_get d k = (case map_of d k of None \<Rightarrow> 0 | Some v \<Rightarrow> v)"

definition get_handlers ::
    "session \<Rightarrow> string \<Rightarrow> pyval list \<Rightarrow> kwargs \<Rightarrow> exc + jsi list" where
  "get_handlers s method_name args kw =
     (let handlers = filter (\<lambda>h. methods (cls h) method_name \<noteq> None)
                       (map snd (handler_dict s)) in
      if handlers = []
      then Inl (ExtractorError (No_JSI_supports_method method_name
                  (get_jsi_keys (map JObj (map snd (handler_dict s))))))
      else
        (let preferences = preference_dict s method_name args kw handlers in
         Inr (sorted_reverse (\<lambda>h. dict_get preferences (JSI_KEY (cls h))) handlers)))"

text \<open>
  The outcome of a request, with the events it caused and the loop's two lists as they
  are when the request ends.
\<close>

record dispatch_result =
  outcome :: "exc + string"
  trace :: "event list"
  unavailable :: "string list"
  exceptions :: "(jsi \<times> extractor_error) list"

definition failed :: "exc \<Rightarrow> dispatch_result" where
  "failed e = \<lparr>outcome = Inl e, trace = [], unavailable = [], exceptions = []\<rparr>"

definition after :: "event list \<Rightarrow> dispatch_result \<Rightarrow> dispatch_result" where
  "after evs r = r\<lparr>trace := evs @ trace r\<rparr>"

text \<open>\<open>getattr(handler, method_name)(*args, **kwargs)\<close>\<close>

definition call_method :: "jsi \<Rightarrow> string \<Rightarrow> pyval list \<Rightarrow> kwargs \<Rightarrow> call_result" where
  "call_method h method_name args kw =
     (case methods (cls h) method_name of
        None \<Rightarrow> Raises (OtherException ''AttributeError'')
      | Some f \<Rightarrow> f args kw)"

text \<open>The loop of \<open>_dispatch_request\<close> and the lines after it.\<close>

fun dispatch_loop ::
    "session \<Rightarrow> string \<Rightarrow> pyval list \<Rightarrow> kwargs \<Rightarrow> jsi list \<Rightarrow> string list \<Rightarrow>
     (jsi \<times> extractor_error) list \<Rightarrow> dispatch_result" where
  "dispatch_loop s method_name args kw [] una excs =
     \<lparr>outcome = Inl (ExtractorError
         (if excs = [] then No_available_JSI una
          else if una \<noteq> [] then Failed_to_perform_try_installing method_name (length excs) una
          else Failed_to_perform method_name (length excs))),
      trace = [], unavailable = una, exceptions = excs\<rparr>"
| "dispatch_loop s method_name args kw (handler # handlers) una excs =
     (if \<not> is_available (cls handler) then
        (if is_test s
         then \<lparr>outcome = Inl (ExtractorError
                  (Not_available_for_testing (JSI_NAME (cls handler)) (JSI_KEY (cls handler)))),
               trace = [Is_available (JSI_KEY (cls handler)) False],
               unavailable = una, exceptions = excs\<rparr>
         else after [Is_available (JSI_KEY (cls handler)) False]
                (dispatch_loop s method_name args kw handlers
                   (una @ [JSI_NAME (cls handler)]) excs))
      else
        (case call_method handler method_name args kw of
           Returns res \<Rightarrow>
             \<lparr>outcome = Inr res,
              trace = [Is_available (JSI_KEY (cls handler)) True,
                       Call (JSI_KEY (cls handler)) method_name args kw (Returns res)],
              unavailable = una, exceptions = excs\<rparr>
         | Raises (ExtractorError e) \<Rightarrow>
             if JSI_KEY (cls handler) \<notin> set (fallback_jsi s)
             then \<lparr>outcome = Inl (ExtractorError e),
                   trace = [Is_available (JSI_KEY (cls handler)) True,
                            Call (JSI_KEY (cls handler)) method_name args kw
                              (Raises (ExtractorError e))],
                   unavailable = una, exceptions = excs\<rparr>
             else after [Is_available (JSI_KEY (cls handler)) True,
                         Call (JSI_KEY (cls handler)) method_name args kw
                           (Raises (ExtractorError e))]
                    (dispatch_loop s method_name args kw handlers una
                       (excs @ [(handler, e)]))
         | Raises x \<Rightarrow>
             \<lparr>outcome = Inl x,
              trace = [Is_available (JSI_KEY (cls handler)) True,
                       Call (JSI_KEY (cls handler)) method_name args kw (Raises x)],
              unavailable = una, exceptions = excs\<rparr>))"

definition dispatch_request ::
    "session \<Rightarrow> string \<Rightarrow> pyval list \<Rightarrow> kwargs \<Rightarrow> dispatch_result" where
  "dispatch_request s method_name args kw =
     (case get_handlers s method_name args kw of
        Inl e \<Rightarrow> failed e
      | Inr handlers \<Rightarrow> dispatch_loop s method_name args kw handlers [] [])"

subsection \<open>The feature check and \<open>execute\<close>\<close>

text \<open>
  Modelled from the spec: \<open>variadic\<close> and \<open>filter_dict\<close> are helpers of \<open>yt_dlp/utils\<close>,
  which is not among the sources. \<open>variadic\<close> turns the single capability named by a
  string into a one-element tuple and leaves an iterable as it is; \<open>filter_dict\<close> drops
  the entries whose value is \<open>None\<close>.
\<close>

fun variadic :: "str_or_iter \<Rightarrow> string list" where
  "variadic (Str x) = [x]"
| "variadic (Iter xs) = xs"

definition filter_dict :: "kwargs \<Rightarrow> kwargs" where
  "filter_dict dct = filter (\<lambda>(k, v). v \<noteq> PyNone) dct"

text \<open>The assertion \<open>require_features\<close> makes when it decorates.\<close>

definition features_declared :: "(string \<times> str_or_iter) list \<Rightarrow> bool" where
  "features_declared param_features =
     list_all (\<lambda>(kw_name, kw_feature). set (variadic kw_feature) \<subseteq> ALL_FEATURES) param_features"

text \<open>The loop of \<open>inner\<close>: the first failing entry of \<open>param_features\<close> raises.\<close>

fun check_features ::
    "(string \<times> str_or_iter) list \<Rightarrow> session \<Rightarrow> kwargs \<Rightarrow> extractor_error option" where
  "check_features [] s kw = None"
| "check_features ((kw_name, kw_feature) # rest) s kw =
     (if kw_name \<in> fst ` set kw \<and> \<not> set (variadic kw_feature) \<subseteq> features s
      then Some (Feature_required kw_feature kw_name)
      else check_features rest s kw)"

definition require_features ::
    "(string \<times> str_or_iter) list \<Rightarrow>
     (session \<Rightarrow> pyval list \<Rightarrow> kwargs \<Rightarrow> dispatch_result) \<Rightarrow>
     session \<Rightarrow> pyval list \<Rightarrow> kwargs \<Rightarrow> dispatch_result" where
  "require_features param_features func s args kw =
     (case check_features param_features s kw of
        Some e \<Rightarrow> failed (ExtractorError e)
      | None \<Rightarrow> func s args kw)"

text \<open>
  Python's binding of a call \<open>f(*args, **kwargs)\<close> to the parameter names of \<open>f\<close>
  (after \<open>self\<close>): too many positional arguments, an unknown keyword and a parameter
  given twice are \<open>TypeError\<close>s.
\<close>

definition bind_arguments ::
    "string list \<Rightarrow> pyval list \<Rightarrow> kwargs \<Rightarrow> exc + (string \<rightharpoonup> pyval)" where
  "bind_arguments params args kw =
     (if length params < length args
      then Inl (TypeError ''too many positional arguments'')
      else if \<not> fst ` set kw \<subseteq> set params
      then Inl (TypeError ''unexpected keyword argument'')
      else if fst ` set kw \<inter> set (take (length args) params) \<noteq> {}
      then Inl (TypeError ''multiple values for argument'')
      else Inr (map_of (zip params args @ kw)))"

definition or_None :: "pyval option \<Rightarrow> pyval" where
  "or_None v = (case v of None \<Rightarrow> PyNone | Some x \<Rightarrow> x)"

text \<open>
  The body of \<open>execute(self, jscode, video_id, note=None, html=None, cookiejar=None)\<close>.
\<close>

definition execute_body :: "session \<Rightarrow> pyval list \<Rightarrow> kwargs \<Rightarrow> dispatch_result" where
  "execute_body s args kw =
     (case bind_arguments [''jscode'', ''video_id'', ''note'', ''html'', ''cookiejar''] args kw of
        Inl e \<Rightarrow> failed e
      | Inr b \<Rightarrow>
          (case b ''jscode'' of
             None \<Rightarrow> failed (TypeError ''missing required positional argument'')
           | Some jscode \<Rightarrow>
               (case b ''video_id'' of
                  None \<Rightarrow> failed (TypeError ''missing required positional argument'')
                | Some video_id \<Rightarrow>
                    dispatch_request s ''execute'' [jscode, video_id]
                      (filter_dict [(''note'', or_None (b ''note'')),
                                    (''html'', or_None (b ''html'')),
                                    (''cookiejar'', or_None (b ''cookiejar''))]))))"

definition execute_param_features :: "(string \<times> str_or_iter) list" where
  "execute_param_features =
     [(''location'', Str ''location''), (''html'', Str ''dom''), (''cookiejar'', Str ''cookies'')]"

definition execute :: "session \<Rightarrow> pyval list \<Rightarrow> kwargs \<Rightarrow> dispatch_result" where
  "execute = require_features execute_param_features execute_body"

subsection \<open>Reading a trace\<close>

fun probed :: "event list \<Rightarrow> string list" where
  "probed [] = []"
| "probed (Is_available k b # evs) = k # probed evs"
| "probed (ev # evs) = probed evs"

fun is_success :: "event \<Rightarrow> bool" where
  "is_success (Call k m args kw (Returns res)) = True"
| "is_success ev = False"

fun is_call :: "event \<Rightarrow> bool" where
  "is_call (Call k m args kw res) = True"
| "is_call ev = False"

fun is_instantiate :: "event \<Rightarrow> bool" where
  "is_instantiate (Instantiate k) = True"
| "is_instantiate ev = False"

section \<open>Example backends\<close>

definition ok_execute :: "string \<Rightarrow> (pyval list \<Rightarrow> kwargs \<Rightarrow> call_result) option" where
  "ok_execute m = (if m = ''execute'' then Some (\<lambda>args kw. Returns ''stdout'') else None)"

definition DenoJSI :: jsi_class where
  "DenoJSI = \<lparr>cls_name = ''DenoJSI'', SUPPORTED_FEATURES = {''wasm'', ''location''},
     BASE_PREFERENCE = 5, is_available = True, methods = ok_execute\<rparr>"

definition PhantomJSI :: jsi_class where
  "PhantomJSI = \<lparr>cls_name = ''PhantomJSI'',
     SUPPORTED_FEATURES = {''wasm'', ''location'', ''dom'', ''cookies''},
     BASE_PREFERENCE = 3, is_available = True, methods = ok_execute\<rparr>"

definition DomOnlyJSI :: jsi_class where
  "DomOnlyJSI = \<lparr>cls_name = ''DomOnlyJSI'', SUPPORTED_FEATURES = {''dom''},
     BASE_PREFERENCE = 0, is_available = True, methods = ok_execute\<rparr>"

definition example_registry :: registry where
  "example_registry =
     [(''Deno'', DenoJSI), (''Phantom'', PhantomJSI), (''DomOnly'', DomOnlyJSI)]"

definition instance_of :: "jsi_class \<Rightarrow> jsi" where
  "instance_of c = \<lparr>cls = c, url = '''', timeout = 10, jsi_features = {}, user_agent = ''UA''\<rparr>"

definition example_downloader :: downloader where
  "example_downloader = \<lparr>jsi_preference = [], test = False, http_user_agent = ''UA''\<rparr>"

definition example_preferences :: "preference list" where
  "example_preferences = register_jsi_preference [] base_preference []"

section \<open>What one handler contributes to a request\<close>

text \<open>
  The descriptions below are not part of the module: they name, for one pass of the loop
  of \<open>_dispatch_request\<close>, the events the pass causes, whether the loop goes on after it,
  the failure it records and the outcome with which it ends the request.
\<close>

definition handler_events :: "string \<Rightarrow> pyval list \<Rightarrow> kwargs \<Rightarrow> jsi \<Rightarrow> event list" where
  "handler_events method_name args kw h =
     (if is_available (cls h)
      then [Is_available (JSI_KEY (cls h)) True,
            Call (JSI_KEY (cls h)) method_name args kw (call_method h method_name args kw)]
      else [Is_available (JSI_KEY (cls h)) False])"

definition failure_of ::
    "string \<Rightarrow> pyval list \<Rightarrow> kwargs \<Rightarrow> jsi \<Rightarrow> (jsi \<times> extractor_error) option" where
  "failure_of method_name args kw h =
     (if is_available (cls h)
      then (case call_method h method_name args kw of
              Raises (ExtractorError e) \<Rightarrow> Some (h, e)
            | _ \<Rightarrow> None)
      else None)"

definition continues :: "session \<Rightarrow> string \<Rightarrow> pyval list \<Rightarrow> kwargs \<Rightarrow> jsi \<Rightarrow> bool" where
  "continues s method_name args kw h =
     (if is_available (cls h)
      then failure_of method_name args kw h \<noteq> None \<and> JSI_KEY (cls h) \<in> set (fallback_jsi s)
      else \<not> is_test s)"

definition stop_outcome :: "string \<Rightarrow> pyval list \<Rightarrow> kwargs \<Rightarrow> jsi \<Rightarrow> exc + string" where
  "stop_outcome method_name args kw h =
     (if is_available (cls h)
      then (case call_method h method_name args kw of
              Returns res \<Rightarrow> Inr res
            | Raises x \<Rightarrow> Inl x)
      else Inl (ExtractorError
                  (Not_available_for_testing (JSI_NAME (cls h)) (JSI_KEY (cls h)))))"

definition exhausted :: "string \<Rightarrow> string list \<Rightarrow> (jsi \<times> extractor_error) list \<Rightarrow> exc" where
  "exhausted method_name una excs =
     ExtractorError
       (if excs = [] then No_available_JSI una
        else if una \<noteq> [] then Failed_to_perform_try_installing method_name (length excs) una
        else Failed_to_perform method_name (length excs))"

text \<open>
  What the dict comprehension of \<open>__init__\<close> establishes for \<open>_handler_dict\<close>: every
  instance is stored under the key of its class (and the keys of a dict are distinct).
\<close>

definition keyed :: "(string \<times> jsi) list \<Rightarrow> bool" where
  "keyed d = (distinct (map fst d) \<and> (\<forall>(k, h) \<in> set d. k = JSI_KEY (cls h)))"

text \<open>
  A wrapper over the three example backends with no required feature and the session
  order \<open>[Phantom]\<close>, as \<open>JSIWrapper_init\<close> builds it (lemma \<open>example_init\<close>).
\<close>

definition example_session :: session where
  "example_session =
     \<lparr>downloader = example_downloader, session_url = '''', features = {},
      handler_dict = [(''Deno'', instance_of DenoJSI), (''Phantom'', instance_of PhantomJSI),
                      (''DomOnly'', instance_of DomOnlyJSI)],
      preferences = [order_to_pref (map JStr []) 10000, order_to_pref [JStr ''Phantom''] 100]
                      @ example_preferences,
      fallback_jsi = [], is_test = False\<rparr>"

text \<open>
  A backend whose \<open>execute\<close> raises an \<open>ExtractorError\<close>, and two that are not installed.
\<close>

definition failing_execute :: "string \<Rightarrow> (pyval list \<Rightarrow> kwargs \<Rightarrow> call_result) option" where
  "failing_execute m =
     (if m = ''execute''
      then Some (\<lambda>args kw. Raises (ExtractorError (Backend_error ''boom'')))
      else None)"

definition FailingJSI :: jsi_class where
  "FailingJSI = \<lparr>cls_name = ''FailingJSI'',
     SUPPORTED_FEATURES = {''wasm'', ''location'', ''dom'', ''cookies''},
     BASE_PREFERENCE = 10, is_available = True, methods = failing_execute\<rparr>"

definition MissingJSI :: jsi_class where
  "MissingJSI = \<lparr>cls_name = ''MissingJSI'', SUPPORTED_FEATURES = {''wasm''},
     BASE_PREFERENCE = 20, is_available = False, methods = ok_execute\<rparr>"

definition AbsentJSI :: jsi_class where
  "AbsentJSI = \<lparr>cls_name = ''AbsentJSI'', SUPPORTED_FEATURES = {''wasm''},
     BASE_PREFERENCE = 0, is_available = False, methods = ok_execute\<rparr>"

definition failing_registry :: registry where
  "failing_registry = [(''Failing'', FailingJSI), (''Missing'', MissingJSI), (''Deno'', DenoJSI)]"

definition missing_registry :: registry where
  "missing_registry = [(''Absent'', AbsentJSI), (''Missing'', MissingJSI)]"

definition testing_downloader :: downloader where
  "testing_downloader = \<lparr>jsi_preference = [], test = True, http_user_agent = ''UA''\<rparr>"

text \<open>
  The wrappers that \<open>JSIWrapper_init\<close> builds over these registries, with no required
  feature and no session order: \<open>wrapper_over dl cs fb\<close> holds an instance of each class
  of \<open>cs\<close>, and \<open>fb\<close> is its \<open>_fallback_jsi\<close>.
\<close>

definition wrapper_over :: "downloader \<Rightarrow> jsi_class list \<Rightarrow> string list \<Rightarrow> session" where
  "wrapper_over dl cs fb =
     \<lparr>downloader = dl, session_url = '''', features = {},
      handler_dict = map (\<lambda>c. (JSI_KEY c, instance_of c)) cs,
      preferences = [order_to_pref (map JStr []) 10000, order_to_pref [] 100]
                      @ example_preferences,
      fallback_jsi = fb, is_test = test dl\<rparr>"

text \<open>
  A global scorer registered for \<open>PhantomJSI\<close> that returns 2, a downloader whose
  \<open>jsi_preference\<close> names \<open>Deno\<close>, and the wrapper \<open>JSIWrapper_init\<close> builds over the
  example registry with the session order \<open>[Phantom]\<close> for a downloader \<open>dl\<close>.
\<close>

definition two_for_phantom :: preference where
  "two_for_phantom = (\<lambda>h method_name args kw. 2)"

definition scored_preferences :: "preference list" where
  "scored_preferences = register_jsi_preference [PhantomJSI] two_for_phantom example_preferences"

definition operator_downloader :: downloader where
  "operator_downloader = \<lparr>jsi_preference = [''Deno''], test = False, http_user_agent = ''UA''\<rparr>"

definition scored_session :: "downloader \<Rightarrow> session" where
  "scored_session dl =
     \<lparr>downloader = dl, session_url = '''', features = {},
      handler_dict = [(''Deno'', instance_of DenoJSI), (''Phantom'', instance_of PhantomJSI),
                      (''DomOnly'', instance_of DomOnlyJSI)],
      preferences = [order_to_pref (map JStr (jsi_preference dl)) 10000,
                     order_to_pref [JStr ''Phantom''] 100] @ scored_preferences,
      fallback_jsi = [], is_test = test dl\<rparr>"

text \<open>
  The wrapper \<open>JSIWrapper_init\<close> builds over the example registry when the feature
  \<open>dom\<close> is required: \<open>Deno\<close> is not eligible.
\<close>

definition dom_session :: session where
  "dom_session =
     \<lparr>downloader = example_downloader, session_url = '''', features = {''dom''},
      handler_dict = [(''Phantom'', (instance_of PhantomJSI)\<lparr>jsi_features := {''dom''}\<rparr>),
                      (''DomOnly'', (instance_of DomOnlyJSI)\<lparr>jsi_features := {''dom''}\<rparr>)],
      preferences = [order_to_pref (map JStr []) 10000, order_to_pref [] 100]
                      @ example_preferences,
      fallback_jsi = [], is_test = False\<rparr>"

section \<open>The eligibility lookup\<close>

lemma supports_empty:
  "k \<in> fst ` set HANDLERS \<Longrightarrow> supports HANDLERS {} k"
  by (auto simp: supports_def map_of_eq_None_iff split: option.splits)

text \<open>
  C3. For every requested capability set, \<open>filter_jsi_keys\<close> returns, in registry order,
  exactly the registered keys whose class declares a superset of the requested set, that
  are in the include list when one is given (a non-empty list), and that are not in the
  exclude list.
\<close>

theorem filter_jsi_keys_exact:
  "filter_jsi_keys HANDLERS feats only_include exclude =
     filter (\<lambda>key. supports HANDLERS feats key
                \<and> (only_include \<noteq> [] \<longrightarrow> key \<in> set (get_jsi_keys only_include))
                \<and> key \<notin> set (get_jsi_keys exclude))
       (map fst HANDLERS)"
proof -
  have all: "filter (supports HANDLERS {}) (map fst HANDLERS) = map fst HANDLERS"
    by (rule filter_True) (auto intro: supports_empty)
  have excl: "get_jsi_keys [] = []"
    by (simp add: get_jsi_keys_def)
  show ?thesis
  proof (cases "feats = {}")
    case True
    have "filter_jsi_keys HANDLERS {} only_include exclude =
      filter (\<lambda>key. (only_include \<noteq> [] \<longrightarrow> key \<in> set (get_jsi_keys only_include))
                \<and> key \<notin> set (get_jsi_keys exclude))
        (filter (supports HANDLERS {}) (map fst HANDLERS))"
      unfolding all by (simp add: filter_jsi_keys_def Let_def excl)
    then show ?thesis
      using True by (simp add:)
  next
    case False
    then show ?thesis
      by (simp add: filter_jsi_keys_def Let_def excl)
  qed
qed

theorem filter_jsi_keys_exact_witness:
  "filter_jsi_keys example_registry {''dom'', ''wasm''} [] [] = [''Phantom'']
   \<and> filter_jsi_keys example_registry {''wasm''} [JStr ''Deno'', JCls PhantomJSI]
        [JStr ''Phantom''] = [''Deno'']"
  using filter_jsi_keys_exact [of example_registry "{''dom'', ''wasm''}" "[]" "[]"]
    filter_jsi_keys_exact [of example_registry "{''wasm''}"
      "[JStr ''Deno'', JCls PhantomJSI]" "[JStr ''Phantom'']"]
  by (simp add: example_registry_def supports_def get_jsi_keys_def JSI_KEY_def
      DenoJSI_def PhantomJSI_def DomOnlyJSI_def)

section \<open>Scores derived from an order\<close>

lemma pref_score_Nil: "pref_score [] m = Map.empty"
  by (simp add: pref_score_def)

lemma pref_score_Cons:
  "pref_score (k # ks) m = (pref_score ks m)(k \<mapsto> (int (length ks) + 1) * m)"
  by (simp add: pref_score_def enumerate_append_eq)

lemma pref_score_absent: "k \<notin> set keys \<Longrightarrow> pref_score keys m k = None"
  by (induction keys) (auto simp: pref_score_Nil pref_score_Cons)

lemma pref_score_first:
  "k \<notin> set pre \<Longrightarrow> pref_score (pre @ k # post) m k = Some ((int (length post) + 1) * m)"
  by (induction pre) (auto simp: pref_score_Cons)

text \<open>
  C5 (as amended). For every order list and multiplier, \<open>order_to_pref\<close> gives a key of
  the list \<open>p * multiplier\<close>, where \<open>p\<close> is the 1-based position, counted from the end
  of the list, of the key's first occurrence (for a list without repetitions: of the
  key), and gives 0 to every key that is not in the list.
\<close>

theorem order_to_pref_first_occurrence:
  "(get_jsi_keys jsi_order = pre @ JSI_KEY (cls h) # post \<and> JSI_KEY (cls h) \<notin> set pre
      \<longrightarrow> order_to_pref jsi_order multiplier h method_name args kw
            = (int (length post) + 1) * multiplier)
   \<and> (JSI_KEY (cls h) \<notin> set (get_jsi_keys jsi_order)
      \<longrightarrow> order_to_pref jsi_order multiplier h method_name args kw = 0)"
  by (auto simp: order_to_pref_def pref_score_first pref_score_absent)

lemma key_Deno: "JSI_KEY (cls (instance_of DenoJSI)) = ''Deno''"
  by (simp add: instance_of_def DenoJSI_def JSI_KEY_def)

theorem order_to_pref_first_occurrence_witness:
  "order_to_pref [JStr ''Phantom'', JStr ''Deno'', JStr ''DomOnly''] 100
      (instance_of DenoJSI) ''execute'' [] [] = 200
   \<and> order_to_pref [JStr ''Phantom''] 100 (instance_of DenoJSI) ''execute'' [] [] = 0"
  using order_to_pref_first_occurrence [of "[JStr ''Phantom'', JStr ''Deno'', JStr ''DomOnly'']"
      "[''Phantom'']" "instance_of DenoJSI" "[''DomOnly'']" 100 "''execute''" "[]" "[]"]
    order_to_pref_first_occurrence [of "[JStr ''Phantom'']"
      "[]" "instance_of DenoJSI" "[]" 100 "''execute''" "[]" "[]"]
  by (simp add: key_Deno get_jsi_keys_def)

text \<open>
  C5 as stated fails on a list that repeats a key: in \<open>[Deno, Phantom, Deno]\<close> the key at
  position 1 from the end is \<open>Deno\<close>, and its score with multiplier 100 is 300, not 100.
\<close>

theorem order_to_pref_duplicate_counterexample:
  "get_jsi_keys [JStr ''Deno'', JStr ''Phantom'', JStr ''Deno''] ! (3 - 1)
      = JSI_KEY (cls (instance_of DenoJSI))
   \<and> order_to_pref [JStr ''Deno'', JStr ''Phantom'', JStr ''Deno''] 100
        (instance_of DenoJSI) ''execute'' [] [] = 300
   \<and> (300 :: int) \<noteq> 1 * 100"
  by (simp add: key_Deno get_jsi_keys_def order_to_pref_def pref_score_Cons pref_score_Nil)

section \<open>Construction of the wrapper\<close>

text \<open>
  C7. For every requested capability set with a tag outside \<open>_ALL_FEATURES\<close>, construction
  raises the unsupported-features error, which carries the whole difference between the
  requested set and \<open>_ALL_FEATURES\<close>, so every offending tag; no backend is instantiated.
\<close>

theorem JSIWrapper_init_unsupported:
  "\<not> set feature_list \<subseteq> ALL_FEATURES \<Longrightarrow>
     JSIWrapper_init HANDLERS PREFERENCES dl u feature_list only_include exclude
         preferred_order fallback_jsi_arg t ua
       = ([], Inl (ExtractorError
                     (Unsupported_features (set feature_list - ALL_FEATURES) ALL_FEATURES)))
     \<and> (\<forall>tag \<in> set feature_list. tag \<notin> ALL_FEATURES
           \<longrightarrow> tag \<in> set feature_list - ALL_FEATURES)"
  by (auto simp: JSIWrapper_init_def Let_def)

theorem JSIWrapper_init_unsupported_witness:
  "JSIWrapper_init example_registry example_preferences example_downloader ''''
       [''dom'', ''js'', ''gpu''] [] [] [] (Fallback []) 10 None
     = ([], Inl (ExtractorError (Unsupported_features {''js'', ''gpu''} ALL_FEATURES)))"
proof -
  have out: "\<not> set [''dom'', ''js'', ''gpu''] \<subseteq> ALL_FEATURES"
    by (simp add: ALL_FEATURES_def)
  have diff: "set [''dom'', ''js'', ''gpu''] - ALL_FEATURES = {''js'', ''gpu''}"
    by (auto simp: ALL_FEATURES_def)
  show ?thesis
    using diff JSIWrapper_init_unsupported [OF out, of example_registry example_preferences
        example_downloader "''''" "[]" "[]" "[]" "Fallback []" 10 None]
    by simp
qed

section \<open>The dispatch loop in closed form\<close>

lemma trace_after [simp]: "trace (after evs r) = evs @ trace r"
  and outcome_after [simp]: "outcome (after evs r) = outcome r"
  and unavailable_after [simp]: "unavailable (after evs r) = unavailable r"
  and exceptions_after [simp]: "exceptions (after evs r) = exceptions r"
  by (simp_all add: after_def)

lemma dispatch_loop_continues:
  "continues s m args kw h \<Longrightarrow>
   dispatch_loop s m args kw (h # hs) una excs =
     after (handler_events m args kw h)
       (dispatch_loop s m args kw hs
          (if is_available (cls h) then una else una @ [JSI_NAME (cls h)])
          (case failure_of m args kw h of None \<Rightarrow> excs | Some p \<Rightarrow> excs @ [p]))"
  by (auto simp: continues_def failure_of_def handler_events_def
      split: call_result.splits exc.splits if_splits)

lemma dispatch_loop_stops:
  "\<not> continues s m args kw h \<Longrightarrow>
   dispatch_loop s m args kw (h # hs) una excs =
     \<lparr>outcome = stop_outcome m args kw h, trace = handler_events m args kw h,
      unavailable = una, exceptions = excs\<rparr>"
  by (auto simp: continues_def failure_of_def handler_events_def stop_outcome_def
      split: call_result.splits exc.splits if_splits)

lemma dispatch_loop_exhausted:
  "dispatch_loop s m args kw [] una excs =
     \<lparr>outcome = Inl (exhausted m una excs), trace = [], unavailable = una, exceptions = excs\<rparr>"
  by (simp add: exhausted_def)


lemmas dispatch_loop_steps = dispatch_loop_continues dispatch_loop_stops dispatch_loop_exhausted

lemma loop_trace:
  "trace (dispatch_loop s m args kw hs una excs) =
     concat (map (handler_events m args kw)
       (takeWhile (continues s m args kw) hs @ take 1 (dropWhile (continues s m args kw) hs)))"
proof (induction hs arbitrary: una excs)
  case Nil
  show ?case by (simp add: exhausted_def)
next
  case (Cons h hs)
  show ?case
  proof (cases "continues s m args kw h")
    case True
    then show ?thesis
      by (simp add: dispatch_loop_continues Cons.IH del: dispatch_loop.simps)
  next
    case False
    then show ?thesis
      by (simp add: dispatch_loop_stops del: dispatch_loop.simps)
  qed
qed

lemma loop_unavailable:
  "unavailable (dispatch_loop s m args kw hs una excs) =
     una @ map (\<lambda>h. JSI_NAME (cls h))
             (filter (\<lambda>h. \<not> is_available (cls h)) (takeWhile (continues s m args kw) hs))"
proof (induction hs arbitrary: una excs)
  case Nil
  show ?case by (simp add: exhausted_def)
next
  case (Cons h hs)
  show ?case
  proof (cases "continues s m args kw h")
    case True
    then show ?thesis
      by (simp add: dispatch_loop_continues Cons.IH del: dispatch_loop.simps)
  next
    case False
    then show ?thesis
      by (simp add: dispatch_loop_stops del: dispatch_loop.simps)
  qed
qed

lemma loop_exceptions:
  "exceptions (dispatch_loop s m args kw hs una excs) =
     excs @ List.map_filter (failure_of m args kw) (takeWhile (continues s m args kw) hs)"
proof (induction hs arbitrary: una excs)
  case Nil
  show ?case by (simp add: map_filter_simps)
next
  case (Cons h hs)
  show ?case
  proof (cases "continues s m args kw h")
    case True
    then show ?thesis
      by (simp add: dispatch_loop_continues Cons.IH map_filter_simps
          del: dispatch_loop.simps split: option.splits)
  next
    case False
    then show ?thesis
      by (simp add: dispatch_loop_stops map_filter_simps del: dispatch_loop.simps)
  qed
qed

lemma loop_outcome:
  "outcome (dispatch_loop s m args kw hs una excs) =
     (case dropWhile (continues s m args kw) hs of
        [] \<Rightarrow> Inl (exhausted m
                 (una @ map (\<lambda>h. JSI_NAME (cls h)) (filter (\<lambda>h. \<not> is_available (cls h)) hs))
                 (excs @ List.map_filter (failure_of m args kw) hs))
      | h # rest \<Rightarrow> stop_outcome m args kw h)"
proof (induction hs arbitrary: una excs)
  case Nil
  show ?case by (simp add: exhausted_def map_filter_simps)
next
  case (Cons h hs)
  show ?case
  proof (cases "continues s m args kw h")
    case True
    have una: "(if is_available (cls h) then una else una @ [JSI_NAME (cls h)])
                 @ map (\<lambda>h. JSI_NAME (cls h)) (filter (\<lambda>h. \<not> is_available (cls h)) hs)
               = una @ map (\<lambda>h. JSI_NAME (cls h))
                         (filter (\<lambda>h. \<not> is_available (cls h)) (h # hs))"
      by simp
    have excs: "(case failure_of m args kw h of None \<Rightarrow> excs | Some p \<Rightarrow> excs @ [p])
                  @ List.map_filter (failure_of m args kw) hs
                = excs @ List.map_filter (failure_of m args kw) (h # hs)"
      by (simp add: map_filter_simps split: option.splits)
    have "outcome (dispatch_loop s m args kw (h # hs) una excs) =
            outcome (dispatch_loop s m args kw hs
              (if is_available (cls h) then una else una @ [JSI_NAME (cls h)])
              (case failure_of m args kw h of None \<Rightarrow> excs | Some p \<Rightarrow> excs @ [p]))"
      using True by (simp add: dispatch_loop_continues del: dispatch_loop.simps)
    also have "\<dots> = (case dropWhile (continues s m args kw) hs of
        [] \<Rightarrow> Inl (exhausted m
                 (una @ map (\<lambda>h. JSI_NAME (cls h))
                          (filter (\<lambda>h. \<not> is_available (cls h)) (h # hs)))
                 (excs @ List.map_filter (failure_of m args kw) (h # hs)))
      | h # rest \<Rightarrow> stop_outcome m args kw h)"
      unfolding Cons.IH una excs ..
    finally show ?thesis
      using True by simp
  next
    case False
    then show ?thesis
      by (simp add: dispatch_loop_stops del: dispatch_loop.simps)
  qed
qed

section \<open>Dicts, instantiation and the constructed wrapper\<close>

lemma map_of_dict_set: "map_of (dict_set k v d) = (map_of d)(k \<mapsto> v)"
  by (induction d) (auto simp: fun_eq_iff)

lemma keys_dict_set:
  "map fst (dict_set k v d) = (if k \<in> fst ` set d then map fst d else map fst d @ [k])"
proof (induction d)
  case Nil
  show ?case by simp
next
  case (Cons p d)
  obtain k' v' where p: "p = (k', v')" by (cases p)
  show ?case
  proof (cases "k' = k")
    case True
    then show ?thesis by (simp add: p)
  next
    case False
    then show ?thesis using Cons by (simp add: p)
  qed
qed

lemma set_dict_set: "set (dict_set k v d) \<subseteq> insert (k, v) (set d)"
  by (induction d) (auto split: if_splits)

lemma distinct_dict_set: "distinct (map fst d) \<Longrightarrow> distinct (map fst (dict_set k v d))"
  by (simp add: keys_dict_set)

lemma JSI_init_cls: "JSI_init c dl u t feats ua = Inr h \<Longrightarrow> cls h = c"
  by (auto simp: JSI_init_def split: if_splits)

lemma JSI_init_ok:
  "feats \<subseteq> SUPPORTED_FEATURES c \<Longrightarrow> \<exists>h. JSI_init c dl u t feats ua = Inr h"
  by (simp add: JSI_init_def)

lemma keyed_dict_set: "keyed d \<Longrightarrow> k = JSI_KEY (cls h) \<Longrightarrow> keyed (dict_set k h d)"
  unfolding keyed_def using set_dict_set [of k h d] by (auto simp: distinct_dict_set)

lemma instantiate_all_keyed:
  "instantiate_all dl u t feats ua cs d = (tr, Inr d') \<Longrightarrow> keyed d \<Longrightarrow> keyed d'"
proof (induction cs arbitrary: d tr)
  case Nil
  then show ?case by simp
next
  case (Cons c cs)
  then show ?case
    by (auto split: sum.splits prod.splits dest!: JSI_init_cls intro: keyed_dict_set)
qed

lemma instantiate_all_trace:
  "instantiate_all dl u t feats ua cs d = (tr, Inr d') \<Longrightarrow>
     tr = map (\<lambda>c. Instantiate (JSI_KEY c)) cs"
proof (induction cs arbitrary: d tr)
  case Nil
  then show ?case by simp
next
  case (Cons c cs)
  then show ?case
    by (auto split: sum.splits prod.splits)
qed

lemma instantiate_all_keys:
  "instantiate_all dl u t feats ua cs d = (tr, Inr d') \<Longrightarrow>
   distinct (map fst d @ map JSI_KEY cs) \<Longrightarrow>
     map fst d' = map fst d @ map JSI_KEY cs"
proof (induction cs arbitrary: d tr)
  case Nil
  then show ?case by simp
next
  case (Cons c cs)
  from Cons.prems obtain h tr' where h: "JSI_init c dl u t feats ua = Inr h"
    and rest: "instantiate_all dl u t feats ua cs (dict_set (JSI_KEY c) h d) = (tr', Inr d')"
    by (auto split: sum.splits prod.splits)
  have keys: "map fst (dict_set (JSI_KEY c) h d) = map fst d @ [JSI_KEY c]"
    using Cons.prems(2) by (auto simp: keys_dict_set)
  have "map fst d' = map fst (dict_set (JSI_KEY c) h d) @ map JSI_KEY cs"
    using Cons.prems(2) by (intro Cons.IH [OF rest]) (simp add: keys)
  then show ?case by (simp add: keys)
qed

lemma instantiate_all_ok:
  "\<forall>c \<in> set cs. feats \<subseteq> SUPPORTED_FEATURES c \<Longrightarrow>
     \<exists>d'. instantiate_all dl u t feats ua cs d
            = (map (\<lambda>c. Instantiate (JSI_KEY c)) cs, Inr d')"
proof (induction cs arbitrary: d)
  case Nil
  then show ?case by simp
next
  case (Cons c cs)
  from Cons.prems have "feats \<subseteq> SUPPORTED_FEATURES c" by simp
  from JSI_init_ok [OF this, of dl u t ua]
  obtain h where h: "JSI_init c dl u t feats ua = Inr h" by blast
  from Cons obtain d' where
    "instantiate_all dl u t feats ua cs (dict_set (JSI_KEY c) h d)
       = (map (\<lambda>c. Instantiate (JSI_KEY c)) cs, Inr d')"
    by fastforce
  then show ?case by (simp add: h)
qed

lemma lookup_all_keys:
  "lookup_all HANDLERS keys = Inr cs \<Longrightarrow> wf_registry HANDLERS \<Longrightarrow> map JSI_KEY cs = keys"
proof (induction keys arbitrary: cs)
  case Nil
  then show ?case by simp
next
  case (Cons k keys)
  then show ?case
    by (auto simp: wf_registry_def list_all_iff split: option.splits sum.splits
        dest!: map_of_SomeD)
qed

lemma lookup_all_map_of:
  "lookup_all HANDLERS keys = Inr cs \<Longrightarrow> map Some cs = map (map_of HANDLERS) keys"
proof (induction keys arbitrary: cs)
  case Nil
  then show ?case by simp
next
  case (Cons k keys)
  then show ?case
    by (auto split: option.splits sum.splits)
qed

lemma lookup_all_ok:
  "set keys \<subseteq> fst ` set HANDLERS \<Longrightarrow> \<exists>cs. lookup_all HANDLERS keys = Inr cs"
proof (induction keys)
  case Nil
  then show ?case by simp
next
  case (Cons k keys)
  then obtain c where "map_of HANDLERS k = Some c"
    by (cases "map_of HANDLERS k") (auto simp: map_of_eq_None_iff)
  with Cons show ?case by auto
qed

lemma filter_jsi_keys_registered:
  "set (filter_jsi_keys HANDLERS feats only_include exclude) \<subseteq> fst ` set HANDLERS"
  by (auto simp: filter_jsi_keys_def Let_def)

lemma filter_jsi_keys_supports:
  "k \<in> set (filter_jsi_keys HANDLERS feats only_include exclude) \<Longrightarrow> supports HANDLERS feats k"
  by (cases "feats = {}")
     (auto simp: filter_jsi_keys_def Let_def supports_empty split: if_splits)

lemma distinct_filter_jsi_keys:
  "distinct (map fst HANDLERS) \<Longrightarrow> distinct (filter_jsi_keys HANDLERS feats only_include exclude)"
  by (simp add: filter_jsi_keys_def Let_def)

lemma JSIWrapper_init_InrE:
  assumes "JSIWrapper_init HANDLERS PREFERENCES dl u feature_list only_include exclude
             preferred_order fallback_jsi_arg t ua = (tr, Inr s)"
  obtains handler_classes where
    "set feature_list \<subseteq> ALL_FEATURES"
    "lookup_all HANDLERS (filter_jsi_keys HANDLERS (set feature_list) only_include exclude)
       = Inr handler_classes"
    "handler_classes \<noteq> []"
    "instantiate_all dl u t (set feature_list) ua handler_classes [] = (tr, Inr (handler_dict s))"
    "features s = set feature_list"
    "is_test s = test dl"
    "preferences s =
       [order_to_pref (map JStr (valid_user_prefs HANDLERS dl)) 10000,
        order_to_pref preferred_order 100] @ PREFERENCES"
    "fallback_jsi s =
       (case fallback_jsi_arg of
          Fallback_all \<Rightarrow> get_jsi_keys (map JCls handler_classes)
        | Fallback keys \<Rightarrow> get_jsi_keys keys)"
  using assms
  by (auto simp: JSIWrapper_init_def Let_def split: if_splits sum.splits prod.splits)

lemma JSIWrapper_init_keyed:
  assumes "JSIWrapper_init HANDLERS PREFERENCES dl u feature_list only_include exclude
             preferred_order fallback_jsi_arg t ua = (tr, Inr s)"
  shows "keyed (handler_dict s)"
proof -
  from assms obtain cs where
    "instantiate_all dl u t (set feature_list) ua cs [] = (tr, Inr (handler_dict s))"
    by (rule JSIWrapper_init_InrE)
  then show ?thesis
    by (rule instantiate_all_keyed) (simp add: keyed_def)
qed

section \<open>Choosing the handlers\<close>

lemma map_of_fold_dict_set_other:
  "k \<notin> key ` set hs \<Longrightarrow>
     map_of (fold (\<lambda>h d. dict_set (key h) (f h) d) hs d) k = map_of d k"
  by (induction hs arbitrary: d) (auto simp: map_of_dict_set)

lemma map_of_fold_dict_set:
  "distinct (map key hs) \<Longrightarrow> h \<in> set hs \<Longrightarrow>
     map_of (fold (\<lambda>h d. dict_set (key h) (f h) d) hs d) (key h) = Some (f h)"
proof (induction hs arbitrary: d)
  case Nil
  then show ?case by simp
next
  case (Cons x hs)
  show ?case
  proof (cases "h = x")
    case True
    with Cons.prems show ?thesis
      by (simp add: map_of_fold_dict_set_other map_of_dict_set)
  next
    case False
    with Cons show ?thesis by simp
  qed
qed

lemma preference_dict_present:
  "distinct (map (\<lambda>h. JSI_KEY (cls h)) hs) \<Longrightarrow> h \<in> set hs \<Longrightarrow>
     dict_get (preference_dict s m args kw hs) (JSI_KEY (cls h))
       = combined_preference s h m args kw"
  unfolding preference_dict_def dict_get_def
  using map_of_fold_dict_set
    [of "\<lambda>h. JSI_KEY (cls h)" hs h "\<lambda>h. combined_preference s h m args kw" "[]"]
  by simp

lemma insort_key_agree:
  "\<forall>y \<in> insert x (set xs). f y = g y \<Longrightarrow> insort_key f x xs = insort_key g x xs"
  by (induction xs) auto

lemma sort_key_agree:
  "\<forall>y \<in> set xs. f y = g y \<Longrightarrow> sort_key f xs = sort_key g xs"
proof (induction xs)
  case Nil
  show ?case by simp
next
  case (Cons x xs)
  then have "sort_key f xs = sort_key g xs" by simp
  moreover have "insort_key f x (sort_key g xs) = insort_key g x (sort_key g xs)"
    using Cons.prems by (intro insort_key_agree) simp
  ultimately show ?case by simp
qed

lemma set_sorted_reverse [simp]: "set (sorted_reverse key xs) = set xs"
  by (simp add: sorted_reverse_def)

lemma distinct_sorted_reverse [simp]: "distinct (sorted_reverse key xs) = distinct xs"
  by (simp add: sorted_reverse_def)

lemma length_sorted_reverse [simp]: "length (sorted_reverse key xs) = length xs"
  by (simp add: sorted_reverse_def)

lemma keyed_keys:
  "\<forall>(k, h) \<in> set d. k = JSI_KEY (cls h) \<Longrightarrow>
     map (\<lambda>h. JSI_KEY (cls h)) (map snd d) = map fst d"
  by (induction d) auto

lemma keyed_distinct_keys:
  "keyed d \<Longrightarrow> distinct (map (\<lambda>h. JSI_KEY (cls h)) (map snd d))"
proof -
  assume k: "keyed d"
  then have eq: "map (\<lambda>h. JSI_KEY (cls h)) (map snd d) = map fst d"
    unfolding keyed_def by (intro keyed_keys) blast
  from k have "distinct (map fst d)"
    by (simp only: keyed_def)
  then show ?thesis
    by (simp only: eq)
qed

lemma get_handlers_sorted:
  assumes "keyed (handler_dict s)" and "get_handlers s m args kw = Inr hs"
  shows "hs = sorted_reverse (\<lambda>h. combined_preference s h m args kw)
                (filter (\<lambda>h. methods (cls h) m \<noteq> None) (map snd (handler_dict s)))"
    and "hs \<noteq> []"
proof -
  let ?cands = "filter (\<lambda>h. methods (cls h) m \<noteq> None) (map snd (handler_dict s))"
  have d: "distinct (map (\<lambda>h. JSI_KEY (cls h)) ?cands)"
    using keyed_distinct_keys [OF assms(1)] by (simp add: distinct_map_filter)
  have ne: "?cands \<noteq> []"
    using assms(2) unfolding get_handlers_def Let_def by (cases "?cands = []") simp_all
  have hs: "hs = sorted_reverse
            (\<lambda>h. dict_get (preference_dict s m args kw ?cands) (JSI_KEY (cls h))) ?cands"
    using assms(2) ne unfolding get_handlers_def Let_def by (simp only: if_False sum.inject)
  show "hs = sorted_reverse (\<lambda>h. combined_preference s h m args kw) ?cands"
    unfolding hs sorted_reverse_def
  proof (rule sort_key_agree, rule ballI)
    fix y assume "y \<in> set ?cands"
    then show "- dict_get (preference_dict s m args kw ?cands) (JSI_KEY (cls y))
                 = - combined_preference s y m args kw"
      by (simp only: preference_dict_present [OF d])
  qed
  have len: "length hs = length ?cands"
    unfolding hs by (rule length_sorted_reverse)
  show "hs \<noteq> []"
  proof
    assume "hs = []"
    with len have "length ?cands = 0"
      by (simp only: list.size)
    then have "?cands = []"
      by (simp only: length_0_conv)
    with ne show False ..
  qed
qed

lemma sorted_reverse_descending:
  "sorted_wrt (\<lambda>a b. key b \<le> key a) (sorted_reverse key xs)"
proof -
  have "sorted (map (\<lambda>x. - key x) (sort_key (\<lambda>x. - key x) xs))"
    by (rule sorted_sort_key)
  then show ?thesis
    by (simp add: sorted_reverse_def sorted_map)
qed

text \<open>Ties keep the order of \<open>_handler_dict\<close>: the sort is stable.\<close>

lemma sorted_reverse_stable:
  "filter (\<lambda>x. key x = v) (sorted_reverse key xs) = filter (\<lambda>x. key x = v) xs"
  using sort_key_stable [of "\<lambda>x. - key x" "- v" xs]
  by (simp add: sorted_reverse_def)

section \<open>What a request's trace looks like\<close>

lemma continues_no_success:
  "continues s m args kw h \<Longrightarrow> ev \<in> set (handler_events m args kw h) \<Longrightarrow> \<not> is_success ev"
  by (auto simp: continues_def handler_events_def failure_of_def
      split: if_splits call_result.splits exc.splits)

lemma butlast_events_no_success:
  "ev \<in> set (butlast (handler_events m args kw h)) \<Longrightarrow> \<not> is_success ev"
  by (auto simp: handler_events_def split: if_splits)

lemma handler_events_not_Nil [simp]: "handler_events m args kw h \<noteq> []"
  by (simp add: handler_events_def)

lemma probed_append [simp]: "probed (xs @ ys) = probed xs @ probed ys"
  by (induction xs rule: probed.induct) simp_all

lemma probed_handler_events [simp]:
  "probed (handler_events m args kw h) = [JSI_KEY (cls h)]"
  by (simp add: handler_events_def)

lemma probed_concat_events:
  "probed (concat (map (handler_events m args kw) hs)) = map (\<lambda>h. JSI_KEY (cls h)) hs"
  by (induction hs) simp_all

lemma prefix_tried: "prefix (takeWhile P xs @ take 1 (dropWhile P xs)) xs"
proof -
  have "prefix (takeWhile P xs @ take 1 (dropWhile P xs)) (takeWhile P xs @ dropWhile P xs)"
    unfolding same_prefix_prefix by (rule take_is_prefix)
  then show ?thesis by simp
qed

lemma loop_no_success_before_last:
  "ev \<in> set (butlast (trace (dispatch_loop s m args kw hs una excs))) \<Longrightarrow> \<not> is_success ev"
proof (induction hs arbitrary: una excs)
  case Nil
  then show ?case by simp
next
  case (Cons h hs)
  show ?case
  proof (cases "continues s m args kw h")
    case True
    with Cons.prems have
      "ev \<in> set (handler_events m args kw h) \<or>
       ev \<in> set (butlast (trace (dispatch_loop s m args kw hs
          (if is_available (cls h) then una else una @ [JSI_NAME (cls h)])
          (case failure_of m args kw h of None \<Rightarrow> excs | Some p \<Rightarrow> excs @ [p]))))"
      by (auto simp add: dispatch_loop_continues butlast_append
          simp del: dispatch_loop.simps split: if_splits dest: in_set_butlastD)
    then show ?thesis
      using continues_no_success [OF True] Cons.IH by blast
  next
    case False
    with Cons.prems show ?thesis
      by (simp add: dispatch_loop_stops butlast_events_no_success del: dispatch_loop.simps)
  qed
qed

lemma stop_outcome_Inr:
  "stop_outcome m args kw h = Inr res \<longleftrightarrow>
     (\<exists>k. last (handler_events m args kw h) = Call k m args kw (Returns res))"
  by (auto simp: stop_outcome_def handler_events_def split: call_result.splits)

lemma continues_last_no_success:
  "continues s m args kw h \<Longrightarrow> last (handler_events m args kw h) \<noteq> Call k m' a' kw' (Returns res)"
  using continues_no_success [of s m args kw h "last (handler_events m args kw h)"]
  by (metis handler_events_not_Nil is_success.simps(1) last_in_set)

lemma loop_outcome_Inr:
  "outcome (dispatch_loop s m args kw hs una excs) = Inr res \<longleftrightarrow>
     trace (dispatch_loop s m args kw hs una excs) \<noteq> [] \<and>
     (\<exists>k. last (trace (dispatch_loop s m args kw hs una excs)) = Call k m args kw (Returns res))"
proof (induction hs arbitrary: una excs)
  case Nil
  show ?case by simp
next
  case (Cons h hs)
  show ?case
  proof (cases "continues s m args kw h")
    case True
    let ?rest = "dispatch_loop s m args kw hs
          (if is_available (cls h) then una else una @ [JSI_NAME (cls h)])
          (case failure_of m args kw h of None \<Rightarrow> excs | Some p \<Rightarrow> excs @ [p])"
    have step: "dispatch_loop s m args kw (h # hs) una excs
                  = after (handler_events m args kw h) ?rest"
      using True by (rule dispatch_loop_continues)
    show ?thesis
    proof (cases "trace ?rest = []")
      case True
      then show ?thesis
        unfolding step using Cons.IH [of "if is_available (cls h) then una else una @ [JSI_NAME (cls h)]"
            "case failure_of m args kw h of None \<Rightarrow> excs | Some p \<Rightarrow> excs @ [p]"]
          continues_last_no_success [OF \<open>continues s m args kw h\<close>]
        by simp
    next
      case False
      then show ?thesis
        unfolding step using Cons.IH [of "if is_available (cls h) then una else una @ [JSI_NAME (cls h)]"
            "case failure_of m args kw h of None \<Rightarrow> excs | Some p \<Rightarrow> excs @ [p]"]
        by simp
    qed
  next
    case False
    then show ?thesis
      by (simp add: dispatch_loop_stops stop_outcome_Inr del: dispatch_loop.simps)
  qed
qed

section \<open>The example wrapper\<close>

lemma example_keys [simp]:
  "JSI_KEY DenoJSI = ''Deno''" "JSI_KEY PhantomJSI = ''Phantom''"
  "JSI_KEY DomOnlyJSI = ''DomOnly''"
  "JSI_NAME DenoJSI = ''Deno''" "JSI_NAME PhantomJSI = ''Phantom''"
  "JSI_NAME DomOnlyJSI = ''DomOnly''"
  by (simp_all add: JSI_KEY_def JSI_NAME_def DenoJSI_def PhantomJSI_def DomOnlyJSI_def)

lemma example_class_fields [simp]:
  "methods DenoJSI = ok_execute" "methods PhantomJSI = ok_execute"
  "methods DomOnlyJSI = ok_execute"
  "is_available DenoJSI" "is_available PhantomJSI" "is_available DomOnlyJSI"
  "BASE_PREFERENCE DenoJSI = 5" "BASE_PREFERENCE PhantomJSI = 3"
  "BASE_PREFERENCE DomOnlyJSI = 0"
  by (simp_all add: DenoJSI_def PhantomJSI_def DomOnlyJSI_def)

lemma cls_instance_of [simp]: "cls (instance_of c) = c"
  by (simp add: instance_of_def)

lemma example_session_fields [simp]:
  "handler_dict example_session =
     [(''Deno'', instance_of DenoJSI), (''Phantom'', instance_of PhantomJSI),
      (''DomOnly'', instance_of DomOnlyJSI)]"
  "fallback_jsi example_session = []" "is_test example_session = False"
  "features example_session = {}"
  by (simp_all add: example_session_def)

lemma example_filter:
  "filter_jsi_keys example_registry {} [] [] = [''Deno'', ''Phantom'', ''DomOnly'']"
  by (simp add: filter_jsi_keys_def example_registry_def)

lemma example_lookup:
  "lookup_all example_registry [''Deno'', ''Phantom'', ''DomOnly'']
     = Inr [DenoJSI, PhantomJSI, DomOnlyJSI]"
  by (simp add: example_registry_def)

lemma example_instantiate:
  "instantiate_all example_downloader '''' 10 {} None [DenoJSI, PhantomJSI, DomOnlyJSI] []
     = ([Instantiate ''Deno'', Instantiate ''Phantom'', Instantiate ''DomOnly''],
        Inr [(''Deno'', instance_of DenoJSI), (''Phantom'', instance_of PhantomJSI),
             (''DomOnly'', instance_of DomOnlyJSI)])"
  by (simp add: JSI_init_def instance_of_def example_downloader_def)

lemma example_downloader_fields [simp]:
  "jsi_preference example_downloader = []" "test example_downloader = False"
  "http_user_agent example_downloader = ''UA''"
  by (simp_all add: example_downloader_def)

lemma example_init:
  "JSIWrapper_init example_registry example_preferences example_downloader '''' []
       [] [] [JStr ''Phantom''] (Fallback []) 10 None
     = ([Instantiate ''Deno'', Instantiate ''Phantom'', Instantiate ''DomOnly''],
        Inr example_session)"
  by (simp add: JSIWrapper_init_def example_filter example_lookup example_instantiate
      example_session_def valid_user_prefs_def get_jsi_keys_def
      del: lookup_all.simps instantiate_all.simps)

lemma example_scores [simp]:
  "combined_preference example_session (instance_of DenoJSI) m args kw = 5"
  "combined_preference example_session (instance_of PhantomJSI) m args kw = 103"
  "combined_preference example_session (instance_of DomOnlyJSI) m args kw = 0"
  by (simp_all add: combined_preference_def example_session_def example_preferences_def
      register_jsi_preference_def restricted_def base_preference_def order_to_pref_def
      pref_score_Cons pref_score_Nil get_jsi_keys_def)

lemma example_get_handlers:
  "get_handlers example_session ''execute'' args kw
     = Inr [instance_of PhantomJSI, instance_of DenoJSI, instance_of DomOnlyJSI]"
  by (simp add: get_handlers_def Let_def preference_dict_def dict_get_def sorted_reverse_def
      ok_execute_def)

lemma example_dispatch:
  "dispatch_request example_session ''execute'' args kw =
     \<lparr>outcome = Inr ''stdout'',
      trace = [Is_available ''Phantom'' True,
               Call ''Phantom'' ''execute'' args kw (Returns ''stdout'')],
      unavailable = [], exceptions = []\<rparr>"
  by (simp add: dispatch_request_def example_get_handlers call_method_def ok_execute_def)

section \<open>Which handlers a request reaches\<close>

text \<open>
  The loop tries the handlers on which it goes on, and the first one on which it stops.
\<close>

lemma tried_continues:
  "x \<in> set (takeWhile P xs @ take 1 (dropWhile P xs)) \<Longrightarrow> P x \<Longrightarrow> x \<in> set (takeWhile P xs)"
proof -
  assume x: "x \<in> set (takeWhile P xs @ take 1 (dropWhile P xs))" and p: "P x"
  have "x \<notin> set (take 1 (dropWhile P xs))"
  proof (cases "dropWhile P xs")
    case Nil
    then show ?thesis by (simp only: take.simps list.set empty_iff not_False_eq_True)
  next
    case (Cons y ys)
    then have "\<not> P y"
      by (metis hd_dropWhile list.distinct(1) list.sel(1))
    with p Cons show ?thesis by auto
  qed
  with x show ?thesis by auto
qed

lemma takeWhile_reaches:
  "distinct (pre @ x # post) \<Longrightarrow> x \<in> set (takeWhile P (pre @ x # post)) \<Longrightarrow>
     takeWhile P (pre @ x # post) = pre @ x # takeWhile P post \<and>
     dropWhile P (pre @ x # post) = dropWhile P post"
proof -
  assume d: "distinct (pre @ x # post)" and x: "x \<in> set (takeWhile P (pre @ x # post))"
  have all: "\<forall>y \<in> set pre. P y"
  proof (rule ccontr)
    assume "\<not> (\<forall>y \<in> set pre. P y)"
    then obtain y where "y \<in> set pre" "\<not> P y" by blast
    then have "takeWhile P (pre @ x # post) = takeWhile P pre"
      by (rule takeWhile_append1)
    with x have "x \<in> set pre"
      by (auto dest: set_takeWhileD)
    with d show False by simp
  qed
  have px: "P x"
    using x by (rule set_takeWhileD [THEN conjunct2])
  from all px show ?thesis
    by (simp add: takeWhile_append2 dropWhile_append2)
qed

lemma tried_next:
  assumes "distinct (pre @ x # nxt # rest)"
    and "x \<in> set (takeWhile P (pre @ x # nxt # rest))"
  shows "nxt \<in> set (takeWhile P (pre @ x # nxt # rest)
                      @ take 1 (dropWhile P (pre @ x # nxt # rest)))"
  using takeWhile_reaches [OF assms] by (cases "P nxt") simp_all

lemma tried_stops:
  assumes "distinct (pre @ x # post)"
    and "x \<in> set (takeWhile P (pre @ x # post) @ take 1 (dropWhile P (pre @ x # post)))"
    and "\<not> P x"
  shows "takeWhile P (pre @ x # post) = pre \<and> dropWhile P (pre @ x # post) = x # post"
proof -
  have notin: "x \<notin> set (takeWhile P (pre @ x # post))"
    using assms(3) by (auto dest: set_takeWhileD)
  have all: "\<forall>y \<in> set pre. P y"
  proof (rule ccontr)
    assume "\<not> (\<forall>y \<in> set pre. P y)"
    then obtain y where y: "y \<in> set pre" "\<not> P y" by blast
    then have tw: "takeWhile P (pre @ x # post) = takeWhile P pre"
      by (rule takeWhile_append1)
    from y have dw: "dropWhile P (pre @ x # post) = dropWhile P pre @ x # post"
      by (rule dropWhile_append1)
    from y have "dropWhile P pre \<noteq> []"
      by auto
    then obtain z zs where z: "dropWhile P pre = z # zs"
      by (cases "dropWhile P pre") auto
    then have "z \<in> set (dropWhile P pre)"
      by simp
    then have "z \<in> set pre"
      by (rule set_dropWhileD)
    with z have "set (take 1 (dropWhile P pre @ x # post)) \<subseteq> set pre"
      by simp
    with assms(2) have "x \<in> set pre"
      unfolding tw dw by (auto dest: set_takeWhileD)
    with assms(1) show False by simp
  qed
  with assms(3) show ?thesis
    by (simp add: takeWhile_append2 dropWhile_append2)
qed

section \<open>More example wrappers\<close>

lemma more_example_keys [simp]:
  "JSI_KEY FailingJSI = ''Failing''" "JSI_KEY MissingJSI = ''Missing''"
  "JSI_KEY AbsentJSI = ''Absent''"
  "JSI_NAME FailingJSI = ''Failing''" "JSI_NAME MissingJSI = ''Missing''"
  "JSI_NAME AbsentJSI = ''Absent''"
  by (simp_all add: JSI_KEY_def JSI_NAME_def FailingJSI_def MissingJSI_def AbsentJSI_def)

lemma more_example_class_fields [simp]:
  "methods FailingJSI = failing_execute" "methods MissingJSI = ok_execute"
  "methods AbsentJSI = ok_execute"
  "is_available FailingJSI" "\<not> is_available MissingJSI" "\<not> is_available AbsentJSI"
  "BASE_PREFERENCE FailingJSI = 10" "BASE_PREFERENCE MissingJSI = 20"
  "BASE_PREFERENCE AbsentJSI = 0"
  by (simp_all add: FailingJSI_def MissingJSI_def AbsentJSI_def)

lemma testing_downloader_fields [simp]:
  "jsi_preference testing_downloader = []" "test testing_downloader = True"
  "http_user_agent testing_downloader = ''UA''"
  by (simp_all add: testing_downloader_def)

lemma wrapper_over_fields [simp]:
  "handler_dict (wrapper_over dl cs fb) = map (\<lambda>c. (JSI_KEY c, instance_of c)) cs"
  "fallback_jsi (wrapper_over dl cs fb) = fb"
  "is_test (wrapper_over dl cs fb) = test dl"
  "features (wrapper_over dl cs fb) = {}"
  by (simp_all add: wrapper_over_def)

lemma wrapper_over_score [simp]:
  "combined_preference (wrapper_over dl cs fb) h m args kw = BASE_PREFERENCE (cls h)"
  by (simp add: combined_preference_def wrapper_over_def example_preferences_def
      register_jsi_preference_def restricted_def base_preference_def order_to_pref_def
      pref_score_Nil get_jsi_keys_def)

lemma JSI_init_example:
  "JSI_init c dl '''' 10 {} None = Inr (instance_of c\<lparr>user_agent := http_user_agent dl\<rparr>)"
  by (simp add: JSI_init_def instance_of_def)

lemma failing_init:
  "JSIWrapper_init failing_registry example_preferences example_downloader '''' []
       [] [] [] (Fallback fb) 10 None
     = ([Instantiate ''Failing'', Instantiate ''Missing'', Instantiate ''Deno''],
        Inr (wrapper_over example_downloader [FailingJSI, MissingJSI, DenoJSI]
               (get_jsi_keys fb)))"
  by (simp add: JSIWrapper_init_def filter_jsi_keys_def failing_registry_def
      JSI_init_example wrapper_over_def valid_user_prefs_def instance_of_def)

lemma failing_init_all:
  "JSIWrapper_init failing_registry example_preferences example_downloader '''' []
       [] [] [] Fallback_all 10 None
     = ([Instantiate ''Failing'', Instantiate ''Missing'', Instantiate ''Deno''],
        Inr (wrapper_over example_downloader [FailingJSI, MissingJSI, DenoJSI]
               [''Failing'', ''Missing'', ''Deno'']))"
  by (simp add: JSIWrapper_init_def filter_jsi_keys_def failing_registry_def
      JSI_init_example wrapper_over_def valid_user_prefs_def instance_of_def get_jsi_keys_def)

lemma missing_init:
  "JSIWrapper_init missing_registry example_preferences example_downloader '''' []
       [] [] [] (Fallback []) 10 None
     = ([Instantiate ''Absent'', Instantiate ''Missing''],
        Inr (wrapper_over example_downloader [AbsentJSI, MissingJSI] []))"
  by (simp add: JSIWrapper_init_def filter_jsi_keys_def missing_registry_def
      JSI_init_example wrapper_over_def valid_user_prefs_def instance_of_def get_jsi_keys_def)

lemma missing_init_testing:
  "JSIWrapper_init missing_registry example_preferences testing_downloader '''' []
       [] [] [] (Fallback []) 10 None
     = ([Instantiate ''Absent'', Instantiate ''Missing''],
        Inr (wrapper_over testing_downloader [AbsentJSI, MissingJSI] []))"
  by (simp add: JSIWrapper_init_def filter_jsi_keys_def missing_registry_def
      JSI_init_example wrapper_over_def valid_user_prefs_def instance_of_def get_jsi_keys_def)

lemma failing_get_handlers:
  "get_handlers (wrapper_over dl [FailingJSI, MissingJSI, DenoJSI] fb) ''execute'' args kw
     = Inr [instance_of MissingJSI, instance_of FailingJSI, instance_of DenoJSI]"
  by (simp add: get_handlers_def Let_def preference_dict_def dict_get_def sorted_reverse_def
      ok_execute_def failing_execute_def)

lemma missing_get_handlers:
  "get_handlers (wrapper_over dl [AbsentJSI, MissingJSI] fb) ''execute'' args kw
     = Inr [instance_of MissingJSI, instance_of AbsentJSI]"
  by (simp add: get_handlers_def Let_def preference_dict_def dict_get_def sorted_reverse_def
      ok_execute_def)

lemma failing_dispatch_fallback:
  "dispatch_request (wrapper_over example_downloader [FailingJSI, MissingJSI, DenoJSI] [''Failing''])
       ''execute'' args kw =
     \<lparr>outcome = Inr ''stdout'',
      trace = [Is_available ''Missing'' False, Is_available ''Failing'' True,
               Call ''Failing'' ''execute'' args kw (Raises (ExtractorError (Backend_error ''boom''))),
               Is_available ''Deno'' True,
               Call ''Deno'' ''execute'' args kw (Returns ''stdout'')],
      unavailable = [''Missing''],
      exceptions = [(instance_of FailingJSI, Backend_error ''boom'')]\<rparr>"
  by (simp add: dispatch_request_def failing_get_handlers call_method_def ok_execute_def
      failing_execute_def after_def)

lemma failing_dispatch_strict:
  "dispatch_request (wrapper_over example_downloader [FailingJSI, MissingJSI, DenoJSI] [])
       ''execute'' args kw =
     \<lparr>outcome = Inl (ExtractorError (Backend_error ''boom'')),
      trace = [Is_available ''Missing'' False, Is_available ''Failing'' True,
               Call ''Failing'' ''execute'' args kw (Raises (ExtractorError (Backend_error ''boom'')))],
      unavailable = [''Missing''], exceptions = []\<rparr>"
  by (simp add: dispatch_request_def failing_get_handlers call_method_def ok_execute_def
      failing_execute_def after_def)

section \<open>Failures: fallback or propagation\<close>

lemma instantiate_all_key_set:
  "instantiate_all dl u t feats ua cs d = (tr, Inr d') \<Longrightarrow>
     fst ` set d' \<subseteq> fst ` set d \<union> JSI_KEY ` set cs"
proof (induction cs arbitrary: d tr)
  case Nil
  then show ?case by simp
next
  case (Cons c cs)
  from Cons.prems obtain h tr' where
    h: "JSI_init c dl u t feats ua = Inr h" and
    rest: "instantiate_all dl u t feats ua cs (dict_set (JSI_KEY c) h d) = (tr', Inr d')"
    by (auto split: sum.splits prod.splits)
  from Cons.IH [OF rest] have
    "fst ` set d' \<subseteq> fst ` set (dict_set (JSI_KEY c) h d) \<union> JSI_KEY ` set cs" .
  moreover have "fst ` set (dict_set (JSI_KEY c) h d) \<subseteq> insert (JSI_KEY c) (fst ` set d)"
    using set_dict_set [of "JSI_KEY c" h d] by auto
  ultimately show ?case by auto
qed

lemma JSIWrapper_init_fallback:
  assumes "JSIWrapper_init HANDLERS PREFERENCES dl u feature_list only_include exclude
             preferred_order fallback_jsi_arg t ua = (tr, Inr s)"
    and "h \<in> snd ` set (handler_dict s)"
  shows "JSI_KEY (cls h) \<in> set (fallback_jsi s) \<longleftrightarrow>
           (case fallback_jsi_arg of
              Fallback_all \<Rightarrow> True
            | Fallback keys \<Rightarrow> JSI_KEY (cls h) \<in> set (get_jsi_keys keys))"
proof (cases fallback_jsi_arg)
  case Fallback_all
  from assms(1) obtain cs where
    inst: "instantiate_all dl u t (set feature_list) ua cs [] = (tr, Inr (handler_dict s))" and
    fb: "fallback_jsi s =
       (case fallback_jsi_arg of
          Fallback_all \<Rightarrow> get_jsi_keys (map JCls cs)
        | Fallback keys \<Rightarrow> get_jsi_keys keys)"
    by (rule JSIWrapper_init_InrE)
  have keyed: "keyed (handler_dict s)"
    using assms(1) by (rule JSIWrapper_init_keyed)
  from assms(2) obtain k where kh: "(k, h) \<in> set (handler_dict s)"
    by auto
  with keyed have "k = JSI_KEY (cls h)"
    by (auto simp: keyed_def)
  with kh have "JSI_KEY (cls h) \<in> fst ` set (handler_dict s)"
    by force
  with instantiate_all_key_set [OF inst] have "JSI_KEY (cls h) \<in> JSI_KEY ` set cs"
    by auto
  then show ?thesis
    by (simp add: fb Fallback_all get_jsi_keys_def image_iff comp_def)
next
  case (Fallback keys)
  with assms(1) show ?thesis
    by (elim JSIWrapper_init_InrE) simp
qed

lemma call_event_handler:
  assumes "distinct (map (\<lambda>h. JSI_KEY (cls h)) hs)" and "set T \<subseteq> set hs" and "h \<in> set hs"
    and "Call (JSI_KEY (cls h)) m' a' k' res \<in> set (concat (map (handler_events m args kw) T))"
  shows "h \<in> set T \<and> is_available (cls h) \<and> res = call_method h m args kw"
proof -
  from assms(4) obtain h' where h': "h' \<in> set T"
    and ev: "Call (JSI_KEY (cls h)) m' a' k' res \<in> set (handler_events m args kw h')"
    by auto
  from ev have av: "is_available (cls h')" and key: "JSI_KEY (cls h') = JSI_KEY (cls h)"
    and res: "res = call_method h' m args kw"
    by (auto simp: handler_events_def split: if_splits)
  from h' assms(2) have "h' \<in> set hs" by blast
  with assms(1,3) key have "h' = h"
    by (auto simp: distinct_map dest: inj_onD)
  with h' av res show ?thesis by simp
qed

section \<open>All candidates tried without success\<close>

lemma failing_init_excluding:
  "JSIWrapper_init failing_registry example_preferences example_downloader '''' []
       [] [JStr ''Deno''] [] Fallback_all 10 None
     = ([Instantiate ''Failing'', Instantiate ''Missing''],
        Inr (wrapper_over example_downloader [FailingJSI, MissingJSI] [''Failing'', ''Missing'']))"
  by (simp add: JSIWrapper_init_def filter_jsi_keys_def failing_registry_def
      JSI_init_example wrapper_over_def valid_user_prefs_def instance_of_def get_jsi_keys_def)

lemma failing_missing_get_handlers:
  "get_handlers (wrapper_over dl [FailingJSI, MissingJSI] fb) ''execute'' args kw
     = Inr [instance_of MissingJSI, instance_of FailingJSI]"
  by (simp add: get_handlers_def Let_def preference_dict_def dict_get_def sorted_reverse_def
      ok_execute_def failing_execute_def)

lemma missing_dispatch_testing:
  "dispatch_request (wrapper_over testing_downloader [AbsentJSI, MissingJSI] [])
       ''execute'' args kw =
     \<lparr>outcome = Inl (ExtractorError (Not_available_for_testing ''Missing'' ''Missing'')),
      trace = [Is_available ''Missing'' False],
      unavailable = [], exceptions = []\<rparr>"
  by (simp add: dispatch_request_def missing_get_handlers)

lemma failures_of_continuing:
  "\<forall>h \<in> set hs. continues s m args kw h \<Longrightarrow>
     map fst (List.map_filter (failure_of m args kw) hs) = filter (\<lambda>h. is_available (cls h)) hs"
proof (induction hs)
  case Nil
  show ?case by (simp add: map_filter_simps)
next
  case (Cons h hs)
  then have IH: "map fst (List.map_filter (failure_of m args kw) hs)
                   = filter (\<lambda>h. is_available (cls h)) hs"
    by simp
  from Cons.prems have c: "continues s m args kw h" by simp
  show ?case
  proof (cases "is_available (cls h)")
    case True
    with c obtain p where p: "failure_of m args kw h = Some p"
      by (auto simp: continues_def)
    then have "fst p = h"
      by (auto simp: failure_of_def split: if_splits call_result.splits exc.splits)
    with p True IH show ?thesis
      by (simp add: map_filter_simps)
  next
    case False
    then have "failure_of m args kw h = None"
      by (simp add: failure_of_def)
    with False IH show ?thesis
      by (simp add: map_filter_simps)
  qed
qed

lemma no_failures_of_unavailable:
  "\<forall>h \<in> set hs. \<not> is_available (cls h) \<Longrightarrow> List.map_filter (failure_of m args kw) hs = []"
  by (induction hs) (simp_all add: map_filter_simps failure_of_def)

lemma loop_all_continue:
  assumes "\<forall>h \<in> set hs. continues s m args kw h"
  shows "outcome (dispatch_loop s m args kw hs [] [])
           = Inl (exhausted m (map (\<lambda>h. JSI_NAME (cls h)) (filter (\<lambda>h. \<not> is_available (cls h)) hs))
                    (List.map_filter (failure_of m args kw) hs))"
    and "unavailable (dispatch_loop s m args kw hs [] [])
           = map (\<lambda>h. JSI_NAME (cls h)) (filter (\<lambda>h. \<not> is_available (cls h)) hs)"
    and "exceptions (dispatch_loop s m args kw hs [] [])
           = List.map_filter (failure_of m args kw) hs"
    and "trace (dispatch_loop s m args kw hs [] [])
           = concat (map (handler_events m args kw) hs)"
proof -
  from assms have tw: "takeWhile (continues s m args kw) hs = hs"
    by (simp add: takeWhile_eq_all_conv)
  from assms have dw: "dropWhile (continues s m args kw) hs = []"
    by simp
  show "outcome (dispatch_loop s m args kw hs [] [])
           = Inl (exhausted m (map (\<lambda>h. JSI_NAME (cls h)) (filter (\<lambda>h. \<not> is_available (cls h)) hs))
                    (List.map_filter (failure_of m args kw) hs))"
    unfolding loop_outcome dw by simp
  show "unavailable (dispatch_loop s m args kw hs [] [])
           = map (\<lambda>h. JSI_NAME (cls h)) (filter (\<lambda>h. \<not> is_available (cls h)) hs)"
    unfolding loop_unavailable tw by simp
  show "exceptions (dispatch_loop s m args kw hs [] [])
           = List.map_filter (failure_of m args kw) hs"
    unfolding loop_exceptions tw by simp
  show "trace (dispatch_loop s m args kw hs [] [])
           = concat (map (handler_events m args kw) hs)"
    unfolding loop_trace tw dw by simp
qed

text \<open>
  C4, in strict/test mode. The wrapper built over two backends that are not installed,
  with \<open>params['test']\<close> set: both candidates of \<open>execute\<close> are unavailable, and the
  request ends at the first of them with the error that names it, not with the
  aggregated error; nothing is listed as unavailable.
\<close>

theorem all_unavailable_in_test_mode_counterexample:
  "JSIWrapper_init missing_registry example_preferences testing_downloader '''' []
       [] [] [] (Fallback []) 10 None
     = ([Instantiate ''Absent'', Instantiate ''Missing''],
        Inr (wrapper_over testing_downloader [AbsentJSI, MissingJSI] []))
   \<and> get_handlers (wrapper_over testing_downloader [AbsentJSI, MissingJSI] []) ''execute'' [] []
       = Inr [instance_of MissingJSI, instance_of AbsentJSI]
   \<and> \<not> is_available (cls (instance_of MissingJSI))
   \<and> \<not> is_available (cls (instance_of AbsentJSI))
   \<and> outcome (dispatch_request (wrapper_over testing_downloader [AbsentJSI, MissingJSI] [])
         ''execute'' [] [])
       = Inl (ExtractorError (Not_available_for_testing ''Missing'' ''Missing''))
   \<and> outcome (dispatch_request (wrapper_over testing_downloader [AbsentJSI, MissingJSI] [])
         ''execute'' [] [])
       \<noteq> Inl (ExtractorError (No_available_JSI [''Missing'', ''Absent'']))
   \<and> unavailable (dispatch_request (wrapper_over testing_downloader [AbsentJSI, MissingJSI] [])
         ''execute'' [] []) = []"
  by (simp add: missing_init_testing missing_get_handlers missing_dispatch_testing)

section \<open>The combined score\<close>

lemma operator_downloader_fields [simp]:
  "jsi_preference operator_downloader = [''Deno'']" "test operator_downloader = False"
  "http_user_agent operator_downloader = ''UA''"
  by (simp_all add: operator_downloader_def)

lemma scored_init:
  "JSIWrapper_init example_registry scored_preferences example_downloader '''' []
       [] [] [JStr ''Phantom''] (Fallback []) 10 None
     = ([Instantiate ''Deno'', Instantiate ''Phantom'', Instantiate ''DomOnly''],
        Inr (scored_session example_downloader))"
  by (simp add: JSIWrapper_init_def filter_jsi_keys_def example_registry_def
      JSI_init_example scored_session_def valid_user_prefs_def instance_of_def get_jsi_keys_def)

lemma scored_init_operator:
  "JSIWrapper_init example_registry scored_preferences operator_downloader '''' []
       [] [] [JStr ''Phantom''] (Fallback []) 10 None
     = ([Instantiate ''Deno'', Instantiate ''Phantom'', Instantiate ''DomOnly''],
        Inr (scored_session operator_downloader))"
  by (simp add: JSIWrapper_init_def filter_jsi_keys_def example_registry_def
      JSI_init_example scored_session_def valid_user_prefs_def instance_of_def get_jsi_keys_def)

lemma scored_preferences_split:
  "scored_preferences = example_preferences @ restricted [PhantomJSI] two_for_phantom # []"
  by (simp add: scored_preferences_def register_jsi_preference_def)

lemma example_cls_names [simp]:
  "cls_name DenoJSI = ''DenoJSI''" "cls_name PhantomJSI = ''PhantomJSI''"
  "cls_name DomOnlyJSI = ''DomOnlyJSI''"
  by (simp_all add: DenoJSI_def PhantomJSI_def DomOnlyJSI_def)

lemma two_for_phantom_scores [simp]:
  "restricted [PhantomJSI] two_for_phantom (instance_of PhantomJSI) m args kw = 2"
  "restricted [PhantomJSI] two_for_phantom (instance_of DenoJSI) m args kw = 0"
  "restricted [PhantomJSI] two_for_phantom (instance_of DomOnlyJSI) m args kw = 0"
  by (simp_all add: restricted_def isinstance_def two_for_phantom_def)

lemma scored_scores:
  "combined_preference (scored_session example_downloader) (instance_of PhantomJSI) m args kw = 105"
  "combined_preference (scored_session example_downloader) (instance_of DomOnlyJSI) m args kw = 0"
  "combined_preference (scored_session operator_downloader) (instance_of PhantomJSI) m args kw = 105"
  "combined_preference (scored_session operator_downloader) (instance_of DenoJSI) m args kw = 10005"
  by (simp_all add: combined_preference_def scored_session_def scored_preferences_split
      example_preferences_def register_jsi_preference_def restricted_def base_preference_def
      order_to_pref_def pref_score_Cons pref_score_Nil get_jsi_keys_def isinstance_def
      two_for_phantom_def)

lemma scored_get_handlers_operator:
  "get_handlers (scored_session operator_downloader) ''execute'' args kw
     = Inr [instance_of DenoJSI, instance_of PhantomJSI, instance_of DomOnlyJSI]"
  by (simp add: get_handlers_def Let_def preference_dict_def dict_get_def sorted_reverse_def
      ok_execute_def scored_scores scored_session_def combined_preference_def
      scored_preferences_split
      example_preferences_def register_jsi_preference_def restricted_def base_preference_def
      order_to_pref_def pref_score_Cons pref_score_Nil get_jsi_keys_def isinstance_def
      two_for_phantom_def)

text \<open>
  C6 as stated fails when the operator-level order names another backend: with the
  global scorer returning 2 for \<open>Phantom\<close> and the session order \<open>[Phantom]\<close>, the score of
  \<open>Phantom\<close> is 105, but \<open>Deno\<close>, mentioned by neither of the two and named in
  \<open>params['jsi_preference']\<close>, scores 10005 and is tried first.
\<close>

theorem operator_order_outweighs_counterexample:
  "JSIWrapper_init example_registry scored_preferences operator_downloader '''' []
       [] [] [JStr ''Phantom''] (Fallback []) 10 None
     = ([Instantiate ''Deno'', Instantiate ''Phantom'', Instantiate ''DomOnly''],
        Inr (scored_session operator_downloader))
   \<and> restricted [PhantomJSI] two_for_phantom (instance_of PhantomJSI) ''execute'' [] [] = 2
   \<and> restricted [PhantomJSI] two_for_phantom (instance_of DenoJSI) ''execute'' [] [] = 0
   \<and> JSI_KEY (cls (instance_of DenoJSI)) \<notin> set (get_jsi_keys [JStr ''Phantom''])
   \<and> combined_preference (scored_session operator_downloader) (instance_of PhantomJSI)
        ''execute'' [] [] = 105
   \<and> combined_preference (scored_session operator_downloader) (instance_of DenoJSI)
        ''execute'' [] [] = 10005
   \<and> \<not> combined_preference (scored_session operator_downloader) (instance_of DenoJSI)
          ''execute'' [] []
        < combined_preference (scored_session operator_downloader) (instance_of PhantomJSI)
          ''execute'' [] []
   \<and> get_handlers (scored_session operator_downloader) ''execute'' [] []
       = Inr [instance_of DenoJSI, instance_of PhantomJSI, instance_of DomOnlyJSI]"
  by (simp add: scored_init_operator scored_scores scored_get_handlers_operator get_jsi_keys_def)

text \<open>
  C6, amended. For every wrapper that \<open>JSIWrapper_init\<close> returns, with the global scorers
  \<open>P1 @ g # P2\<close>, and every request: the score under which \<open>_get_handlers\<close> sorts a
  candidate is the sum of what all scoring functions of the wrapper give it, and these are
  the operator-level order with multiplier 10000, the session order with multiplier 100
  and the global scorers. If \<open>g\<close> gives 2 to \<open>x\<close> and 0 to \<open>y\<close>, the session order places
  \<open>x\<close> first and does not name \<open>y\<close>, then the score of \<open>x\<close> is 2 plus 100 times the length
  of the session order plus what the remaining functions (the operator-level order and
  the other global scorers) give \<open>x\<close>, and the score of \<open>y\<close> is what the remaining
  functions give \<open>y\<close>; so the score of \<open>x\<close> is at least 102 when the remaining functions
  give \<open>x\<close> no negative total, and exceeds the score of \<open>y\<close> when they give \<open>y\<close> no more
  than \<open>x\<close>.
\<close>

theorem combined_preference_is_sum:
  assumes "JSIWrapper_init HANDLERS (P1 @ g # P2) dl u feature_list only_include exclude
             preferred_order fallback_jsi_arg t ua = (tr0, Inr s)"
  shows "(\<forall>h \<in> set (filter (\<lambda>h. methods (cls h) m \<noteq> None) (map snd (handler_dict s))).
            dict_get (preference_dict s m args kw
                (filter (\<lambda>h. methods (cls h) m \<noteq> None) (map snd (handler_dict s))))
              (JSI_KEY (cls h))
            = order_to_pref (map JStr (valid_user_prefs HANDLERS dl)) 10000 h m args kw
              + order_to_pref preferred_order 100 h m args kw
              + sum_list (map (\<lambda>f. f h m args kw) (P1 @ g # P2)))
       \<and> (\<forall>x y rest.
            g x m args kw = 2 \<and> get_jsi_keys preferred_order = JSI_KEY (cls x) # rest \<and>
            g y m args kw = 0 \<and> JSI_KEY (cls y) \<notin> set (get_jsi_keys preferred_order) \<longrightarrow>
              combined_preference s x m args kw
                = 2 + 100 * (int (length rest) + 1)
                  + (order_to_pref (map JStr (valid_user_prefs HANDLERS dl)) 10000 x m args kw
                     + sum_list (map (\<lambda>f. f x m args kw) (P1 @ P2))) \<and>
              combined_preference s y m args kw
                = order_to_pref (map JStr (valid_user_prefs HANDLERS dl)) 10000 y m args kw
                  + sum_list (map (\<lambda>f. f y m args kw) (P1 @ P2)) \<and>
              (0 \<le> order_to_pref (map JStr (valid_user_prefs HANDLERS dl)) 10000 x m args kw
                     + sum_list (map (\<lambda>f. f x m args kw) (P1 @ P2))
                 \<longrightarrow> 102 \<le> combined_preference s x m args kw) \<and>
              (order_to_pref (map JStr (valid_user_prefs HANDLERS dl)) 10000 y m args kw
                  + sum_list (map (\<lambda>f. f y m args kw) (P1 @ P2))
                 \<le> order_to_pref (map JStr (valid_user_prefs HANDLERS dl)) 10000 x m args kw
                     + sum_list (map (\<lambda>f. f x m args kw) (P1 @ P2))
                 \<longrightarrow> combined_preference s y m args kw < combined_preference s x m args kw))"
proof -
  let ?cands = "filter (\<lambda>h. methods (cls h) m \<noteq> None) (map snd (handler_dict s))"
  let ?user = "order_to_pref (map JStr (valid_user_prefs HANDLERS dl)) 10000"
  have keyed: "keyed (handler_dict s)"
    using assms by (rule JSIWrapper_init_keyed)
  have prefs: "preferences s = [?user, order_to_pref preferred_order 100] @ (P1 @ g # P2)"
    using assms by (rule JSIWrapper_init_InrE)
  have sum: "combined_preference s h m args kw
               = ?user h m args kw + order_to_pref preferred_order 100 h m args kw
                 + sum_list (map (\<lambda>f. f h m args kw) (P1 @ g # P2))" for h
    unfolding combined_preference_def prefs by simp
  have d: "distinct (map (\<lambda>h. JSI_KEY (cls h)) ?cands)"
    using keyed_distinct_keys [OF keyed] by (simp add: distinct_map_filter)
  have 1: "\<forall>h \<in> set ?cands.
            dict_get (preference_dict s m args kw ?cands) (JSI_KEY (cls h))
            = ?user h m args kw + order_to_pref preferred_order 100 h m args kw
              + sum_list (map (\<lambda>f. f h m args kw) (P1 @ g # P2))"
  proof
    fix h assume "h \<in> set ?cands"
    with d have "dict_get (preference_dict s m args kw ?cands) (JSI_KEY (cls h))
                   = combined_preference s h m args kw"
      by (rule preference_dict_present)
    then show "dict_get (preference_dict s m args kw ?cands) (JSI_KEY (cls h))
            = ?user h m args kw + order_to_pref preferred_order 100 h m args kw
              + sum_list (map (\<lambda>f. f h m args kw) (P1 @ g # P2))"
      by (simp only: sum)
  qed
  have 2: "combined_preference s x m args kw
                = 2 + 100 * (int (length rest) + 1)
                  + (?user x m args kw + sum_list (map (\<lambda>f. f x m args kw) (P1 @ P2))) \<and>
           combined_preference s y m args kw
                = ?user y m args kw + sum_list (map (\<lambda>f. f y m args kw) (P1 @ P2))"
    if gx: "g x m args kw = 2"
      and first: "get_jsi_keys preferred_order = JSI_KEY (cls x) # rest"
      and gy: "g y m args kw = 0"
      and absent: "JSI_KEY (cls y) \<notin> set (get_jsi_keys preferred_order)"
    for x y rest
  proof -
    have ox: "order_to_pref preferred_order 100 x m args kw = (int (length rest) + 1) * 100"
      using pref_score_first [of "JSI_KEY (cls x)" "[]" rest 100]
      by (simp add: order_to_pref_def first)
    have oy: "order_to_pref preferred_order 100 y m args kw = 0"
      using absent by (simp add: order_to_pref_def pref_score_absent)
    show ?thesis
      by (simp add: sum ox oy gx gy)
  qed
  have 3: "\<forall>x y rest.
            g x m args kw = 2 \<and> get_jsi_keys preferred_order = JSI_KEY (cls x) # rest \<and>
            g y m args kw = 0 \<and> JSI_KEY (cls y) \<notin> set (get_jsi_keys preferred_order) \<longrightarrow>
              combined_preference s x m args kw
                = 2 + 100 * (int (length rest) + 1)
                  + (?user x m args kw + sum_list (map (\<lambda>f. f x m args kw) (P1 @ P2))) \<and>
              combined_preference s y m args kw
                = ?user y m args kw + sum_list (map (\<lambda>f. f y m args kw) (P1 @ P2)) \<and>
              (0 \<le> ?user x m args kw + sum_list (map (\<lambda>f. f x m args kw) (P1 @ P2))
                 \<longrightarrow> 102 \<le> combined_preference s x m args kw) \<and>
              (?user y m args kw + sum_list (map (\<lambda>f. f y m args kw) (P1 @ P2))
                 \<le> ?user x m args kw + sum_list (map (\<lambda>f. f x m args kw) (P1 @ P2))
                 \<longrightarrow> combined_preference s y m args kw < combined_preference s x m args kw)"
  proof (intro allI impI, elim conjE)
    fix x y rest
    assume a: "g x m args kw = 2" "get_jsi_keys preferred_order = JSI_KEY (cls x) # rest"
      "g y m args kw = 0" "JSI_KEY (cls y) \<notin> set (get_jsi_keys preferred_order)"
    from 2 [OF a] have
      x: "combined_preference s x m args kw
                = 2 + 100 * (int (length rest) + 1)
                  + (?user x m args kw + sum_list (map (\<lambda>f. f x m args kw) (P1 @ P2)))" and
      y: "combined_preference s y m args kw
                = ?user y m args kw + sum_list (map (\<lambda>f. f y m args kw) (P1 @ P2))"
      by blast+
    have len: "(0::int) \<le> int (length rest)" by simp
    show "combined_preference s x m args kw
                = 2 + 100 * (int (length rest) + 1)
                  + (?user x m args kw + sum_list (map (\<lambda>f. f x m args kw) (P1 @ P2))) \<and>
              combined_preference s y m args kw
                = ?user y m args kw + sum_list (map (\<lambda>f. f y m args kw) (P1 @ P2)) \<and>
              (0 \<le> ?user x m args kw + sum_list (map (\<lambda>f. f x m args kw) (P1 @ P2))
                 \<longrightarrow> 102 \<le> combined_preference s x m args kw) \<and>
              (?user y m args kw + sum_list (map (\<lambda>f. f y m args kw) (P1 @ P2))
                 \<le> ?user x m args kw + sum_list (map (\<lambda>f. f x m args kw) (P1 @ P2))
                 \<longrightarrow> combined_preference s y m args kw < combined_preference s x m args kw)"
    proof (intro conjI impI)
      show "combined_preference s x m args kw
                = 2 + 100 * (int (length rest) + 1)
                  + (?user x m args kw + sum_list (map (\<lambda>f. f x m args kw) (P1 @ P2)))"
        by (rule x)
      show "combined_preference s y m args kw
                = ?user y m args kw + sum_list (map (\<lambda>f. f y m args kw) (P1 @ P2))"
        by (rule y)
    next
      define rx where "rx = ?user x m args kw + sum_list (map (\<lambda>f. f x m args kw) (P1 @ P2))"
      assume "0 \<le> ?user x m args kw + sum_list (map (\<lambda>f. f x m args kw) (P1 @ P2))"
      then have "0 \<le> rx" by (simp only: rx_def)
      moreover have "combined_preference s x m args kw = 2 + 100 * (int (length rest) + 1) + rx"
        unfolding rx_def by (rule x)
      ultimately show "102 \<le> combined_preference s x m args kw"
        by simp
    next
      define rx where "rx = ?user x m args kw + sum_list (map (\<lambda>f. f x m args kw) (P1 @ P2))"
      define ry where "ry = ?user y m args kw + sum_list (map (\<lambda>f. f y m args kw) (P1 @ P2))"
      assume "?user y m args kw + sum_list (map (\<lambda>f. f y m args kw) (P1 @ P2))
                 \<le> ?user x m args kw + sum_list (map (\<lambda>f. f x m args kw) (P1 @ P2))"
      then have "ry \<le> rx" by (simp only: rx_def ry_def)
      moreover have "combined_preference s x m args kw = 2 + 100 * (int (length rest) + 1) + rx"
        unfolding rx_def by (rule x)
      moreover have "combined_preference s y m args kw = ry"
        unfolding ry_def by (rule y)
      ultimately show "combined_preference s y m args kw < combined_preference s x m args kw"
        by simp
    qed
  qed
  from 1 3 show ?thesis by (rule conjI)
qed

theorem combined_preference_is_sum_witness:
  "102 \<le> combined_preference (scored_session example_downloader) (instance_of PhantomJSI)
            ''execute'' [] []
   \<and> combined_preference (scored_session example_downloader) (instance_of DomOnlyJSI)
        ''execute'' [] []
     < combined_preference (scored_session example_downloader) (instance_of PhantomJSI)
        ''execute'' [] []"
  using combined_preference_is_sum
      [OF scored_init [unfolded scored_preferences_split], of "''execute''" "[]" "[]",
       THEN conjunct2, rule_format,
       where x = "instance_of PhantomJSI" and y = "instance_of DomOnlyJSI" and rest = "[]"]
  by (simp add: valid_user_prefs_def order_to_pref_def pref_score_Nil get_jsi_keys_def
      example_preferences_def register_jsi_preference_def restricted_def base_preference_def
      isinstance_def two_for_phantom_def)

section \<open>When the backends are instantiated\<close>

lemma handler_events_no_instantiate:
  "ev \<in> set (handler_events m args kw h) \<Longrightarrow> \<not> is_instantiate ev"
  by (auto simp: handler_events_def split: if_splits)

lemma dispatch_request_no_instantiate:
  "ev \<in> set (trace (dispatch_request s m args kw)) \<Longrightarrow> \<not> is_instantiate ev"
proof (cases "get_handlers s m args kw")
  case (Inl e)
  assume "ev \<in> set (trace (dispatch_request s m args kw))"
  with Inl show ?thesis
    by (simp add: dispatch_request_def failed_def)
next
  case (Inr hs)
  assume "ev \<in> set (trace (dispatch_request s m args kw))"
  with Inr obtain h where "ev \<in> set (handler_events m args kw h)"
    by (auto simp: dispatch_request_def loop_trace)
  then show ?thesis
    by (rule handler_events_no_instantiate)
qed

lemma execute_no_instantiate:
  "ev \<in> set (trace (execute s args kw)) \<Longrightarrow> \<not> is_instantiate ev"
  by (auto simp: execute_def require_features_def execute_body_def failed_def
      dest: dispatch_request_no_instantiate split: option.splits sum.splits)

lemma wf_example_registry: "wf_registry example_registry"
  by (simp add: wf_registry_def example_registry_def)

text \<open>
  C9 as stated fails: constructing the wrapper over the three example backends calls the
  constructor of each of them, before any operation is requested, and the request that
  follows calls no constructor.
\<close>

theorem construction_instantiates_counterexample:
  "JSIWrapper_init example_registry example_preferences example_downloader '''' []
       [] [] [JStr ''Phantom''] (Fallback []) 10 None
     = ([Instantiate ''Deno'', Instantiate ''Phantom'', Instantiate ''DomOnly''],
        Inr example_session)
   \<and> filter is_instantiate
        [Instantiate ''Deno'', Instantiate ''Phantom'', Instantiate ''DomOnly''] \<noteq> []
   \<and> filter is_instantiate (trace (dispatch_request example_session ''execute'' [] [])) = []"
  by (simp add: example_init example_dispatch)

text \<open>
  C9, amended. The wrapper instantiates the matching backends eagerly: for every
  registry as \<open>register_jsi\<close> maintains it, a construction that returns a wrapper has
  called, exactly once each and in the order of the registry, the constructors of the
  eligible backends (of which there is at least one), the wrapper holds an instance under
  each of these keys, and no request to the wrapper calls a constructor.
\<close>

theorem construction_instantiates_eagerly:
  assumes "wf_registry HANDLERS"
    and "JSIWrapper_init HANDLERS PREFERENCES dl u feature_list only_include exclude
           preferred_order fallback_jsi_arg t ua = (tr0, Inr s)"
  shows "tr0 = map Instantiate (filter_jsi_keys HANDLERS (set feature_list) only_include exclude)
       \<and> tr0 \<noteq> []
       \<and> map fst (handler_dict s)
           = filter_jsi_keys HANDLERS (set feature_list) only_include exclude
       \<and> (\<forall>m args kw. \<forall>ev \<in> set (trace (dispatch_request s m args kw)). \<not> is_instantiate ev)
       \<and> (\<forall>args kw. \<forall>ev \<in> set (trace (execute s args kw)). \<not> is_instantiate ev)"
proof -
  let ?keys = "filter_jsi_keys HANDLERS (set feature_list) only_include exclude"
  from assms(2) obtain cs where
    look: "lookup_all HANDLERS ?keys = Inr cs" and ne: "cs \<noteq> []" and
    inst: "instantiate_all dl u t (set feature_list) ua cs [] = (tr0, Inr (handler_dict s))"
    by (rule JSIWrapper_init_InrE)
  have keys: "map JSI_KEY cs = ?keys"
    using look assms(1) by (rule lookup_all_keys)
  have "tr0 = map (\<lambda>c. Instantiate (JSI_KEY c)) cs"
    using inst by (rule instantiate_all_trace)
  also have "\<dots> = map Instantiate (map JSI_KEY cs)"
    by simp
  finally have 1: "tr0 = map Instantiate ?keys"
    by (simp only: keys)
  from ne keys have "?keys \<noteq> []"
    by auto
  with 1 have 2: "tr0 \<noteq> []"
    by simp
  have "distinct (map fst HANDLERS)"
    using assms(1) by (simp add: wf_registry_def)
  then have "distinct ?keys"
    by (rule distinct_filter_jsi_keys)
  then have "distinct (map fst ([] :: (string \<times> jsi) list) @ map JSI_KEY cs)"
    by (simp add: keys)
  with inst have "map fst (handler_dict s)
                    = map fst ([] :: (string \<times> jsi) list) @ map JSI_KEY cs"
    by (rule instantiate_all_keys)
  then have 3: "map fst (handler_dict s) = ?keys"
    by (simp add: keys)
  have 4: "\<forall>m args kw. \<forall>ev \<in> set (trace (dispatch_request s m args kw)). \<not> is_instantiate ev"
    by (blast dest: dispatch_request_no_instantiate)
  have 5: "\<forall>args kw. \<forall>ev \<in> set (trace (execute s args kw)). \<not> is_instantiate ev"
    by (blast dest: execute_no_instantiate)
  from 1 2 3 4 5 show ?thesis by blast
qed

theorem construction_instantiates_eagerly_witness:
  "map fst (handler_dict example_session) = [''Deno'', ''Phantom'', ''DomOnly'']
   \<and> filter_jsi_keys example_registry (set []) [] [] = [''Deno'', ''Phantom'', ''DomOnly'']
   \<and> filter is_instantiate (trace (dispatch_request example_session ''execute'' [] [])) = []"
  using construction_instantiates_eagerly [OF wf_example_registry example_init]
  by (simp add: example_filter filter_empty_conv)

section \<open>The feature check of \<open>execute\<close>\<close>

lemma dom_init:
  "JSIWrapper_init example_registry example_preferences example_downloader '''' [''dom'']
       [] [] [] (Fallback []) 10 None
     = ([Instantiate ''Phantom'', Instantiate ''DomOnly''], Inr dom_session)"
  by (simp add: JSIWrapper_init_def filter_jsi_keys_def example_registry_def supports_def
      JSI_init_def dom_session_def valid_user_prefs_def instance_of_def get_jsi_keys_def
      ALL_FEATURES_def DenoJSI_def PhantomJSI_def DomOnlyJSI_def JSI_KEY_def Let_def)

lemma dom_session_fields [simp]:
  "features dom_session = {''dom''}" "fallback_jsi dom_session = []"
  "is_test dom_session = False"
  by (simp_all add: dom_session_def)

lemma dom_dispatch:
  "dispatch_request dom_session ''execute'' args kw =
     \<lparr>outcome = Inr ''stdout'',
      trace = [Is_available ''Phantom'' True,
               Call ''Phantom'' ''execute'' args kw (Returns ''stdout'')],
      unavailable = [], exceptions = []\<rparr>"
  by (simp add: dispatch_request_def get_handlers_def Let_def preference_dict_def
      dict_get_def sorted_reverse_def ok_execute_def call_method_def dom_session_def
      combined_preference_def example_preferences_def register_jsi_preference_def
      restricted_def base_preference_def order_to_pref_def pref_score_Nil get_jsi_keys_def)

lemma check_features_execute:
  "check_features execute_param_features s kw =
     (if ''location'' \<in> fst ` set kw \<and> ''location'' \<notin> features s
      then Some (Feature_required (Str ''location'') ''location'')
      else if ''html'' \<in> fst ` set kw \<and> ''dom'' \<notin> features s
      then Some (Feature_required (Str ''dom'') ''html'')
      else if ''cookiejar'' \<in> fst ` set kw \<and> ''cookies'' \<notin> features s
      then Some (Feature_required (Str ''cookies'') ''cookiejar'')
      else None)"
  by (simp add: execute_param_features_def)

lemma execute_body_two_positional:
  "execute_body s [jscode, video_id] [] = dispatch_request s ''execute'' [jscode, video_id] []"
  by (simp add: execute_body_def bind_arguments_def filter_dict_def or_None_def)

lemma execute_body_html_keyword:
  "execute_body s [jscode, video_id] [(''html'', v)]
     = dispatch_request s ''execute'' [jscode, video_id]
         (if v = PyNone then [] else [(''html'', v)])"
  by (simp add: execute_body_def bind_arguments_def filter_dict_def or_None_def)

text \<open>
  C8 as stated fails for a document body passed positionally: on the example wrapper,
  which does not declare \<open>dom\<close>, \<open>execute(code, vid, None, '<html>')\<close> is not rejected;
  the backend \<open>Phantom\<close> is called with \<open>html='<html>'\<close> and the call returns.
\<close>

theorem execute_positional_html_counterexample:
  "''dom'' \<notin> features example_session
   \<and> execute example_session [PyStr ''code'', PyStr ''vid'', PyNone, PyStr ''<html>''] []
     = \<lparr>outcome = Inr ''stdout'',
        trace = [Is_available ''Phantom'' True,
                 Call ''Phantom'' ''execute'' [PyStr ''code'', PyStr ''vid'']
                   [(''html'', PyStr ''<html>'')] (Returns ''stdout'')],
        unavailable = [], exceptions = []\<rparr>"
  by (simp add: execute_def require_features_def check_features_execute execute_body_def
      bind_arguments_def filter_dict_def or_None_def example_dispatch)

text \<open>
  C8, what holds. The check of \<open>require_features\<close> reads the keyword arguments only. For
  every wrapper and every call of \<open>execute\<close> that passes \<open>html\<close> by keyword without \<open>dom\<close>
  among the features of the wrapper, or \<open>cookiejar\<close> by keyword without \<open>cookies\<close>, the
  call fails with the error that names the first such parameter and its feature, and no
  backend is probed or called. A call with none of the keywords \<open>location\<close>, \<open>html\<close>,
  \<open>cookiejar\<close> is not checked at all: it is the body of \<open>execute\<close>, whatever its
  positional arguments are.
\<close>

theorem execute_checks_keywords_only:
  "((''html'' \<in> fst ` set kw \<and> ''dom'' \<notin> features s) \<or>
    (''cookiejar'' \<in> fst ` set kw \<and> ''cookies'' \<notin> features s) \<longrightarrow>
      execute s args kw
        = failed (ExtractorError
            (if ''location'' \<in> fst ` set kw \<and> ''location'' \<notin> features s
             then Feature_required (Str ''location'') ''location''
             else if ''html'' \<in> fst ` set kw \<and> ''dom'' \<notin> features s
             then Feature_required (Str ''dom'') ''html''
             else Feature_required (Str ''cookies'') ''cookiejar'')) \<and>
      trace (execute s args kw) = [])
   \<and> (fst ` set kw \<inter> {''location'', ''html'', ''cookiejar''} = {} \<longrightarrow>
        execute s args kw = execute_body s args kw)"
  by (auto simp: execute_def require_features_def check_features_execute failed_def)

theorem execute_checks_keywords_only_witness:
  "execute example_session [PyStr ''code'', PyStr ''vid''] [(''html'', PyStr ''<html>'')]
     = failed (ExtractorError (Feature_required (Str ''dom'') ''html''))
   \<and> execute example_session [PyStr ''code'', PyStr ''vid'']
        [(''cookiejar'', PyObj ''jar'')]
     = failed (ExtractorError (Feature_required (Str ''cookies'') ''cookiejar''))
   \<and> execute example_session [PyStr ''code'', PyStr ''vid'', PyNone, PyStr ''<html>''] []
     = execute_body example_session [PyStr ''code'', PyStr ''vid'', PyNone, PyStr ''<html>''] []"
  using execute_checks_keywords_only
      [of "[(''html'', PyStr ''<html>'')]" example_session "[PyStr ''code'', PyStr ''vid'']"]
    execute_checks_keywords_only
      [of "[(''cookiejar'', PyObj ''jar'')]" example_session "[PyStr ''code'', PyStr ''vid'']"]
    execute_checks_keywords_only
      [of "[]" example_session "[PyStr ''code'', PyStr ''vid'', PyNone, PyStr ''<html>'']"]
  by simp

text \<open>
  C10. For every wrapper without the feature \<open>dom\<close>, \<open>execute(jscode, video_id, html=v)\<close>
  fails with the error that \<open>dom\<close> is required for \<open>html\<close>, whatever the value \<open>v\<close> is,
  \<open>None\<close> included, and no backend is probed; the same call without \<open>html\<close> passes the
  check and is the request \<open>execute\<close> with the two arguments. For a wrapper with the
  feature \<open>dom\<close>, \<open>html=None\<close> passes the check and is dropped before the request: the
  backends are called as if \<open>html\<close> had been left out.
\<close>

theorem feature_check_on_presence:
  "(''dom'' \<notin> features s \<longrightarrow>
      (\<forall>v. execute s [jscode, video_id] [(''html'', v)]
             = failed (ExtractorError (Feature_required (Str ''dom'') ''html''))) \<and>
      trace (execute s [jscode, video_id] [(''html'', PyNone)]) = [] \<and>
      execute s [jscode, video_id] [] = dispatch_request s ''execute'' [jscode, video_id] [])
   \<and> (''dom'' \<in> features s \<longrightarrow>
        execute s [jscode, video_id] [(''html'', PyNone)]
          = dispatch_request s ''execute'' [jscode, video_id] [])"
  by (simp add: execute_def require_features_def check_features_execute failed_def
      execute_body_two_positional execute_body_html_keyword)

theorem feature_check_on_presence_witness:
  "outcome (execute example_session [PyStr ''code'', PyStr ''vid''] [(''html'', PyNone)])
     = Inl (ExtractorError (Feature_required (Str ''dom'') ''html''))
   \<and> outcome (execute example_session [PyStr ''code'', PyStr ''vid''] []) = Inr ''stdout''
   \<and> trace (execute dom_session [PyStr ''code'', PyStr ''vid''] [(''html'', PyNone)])
     = [Is_available ''Phantom'' True,
        Call ''Phantom'' ''execute'' [PyStr ''code'', PyStr ''vid''] [] (Returns ''stdout'')]"
  using feature_check_on_presence [of example_session "PyStr ''code''" "PyStr ''vid''"]
    feature_check_on_presence [of dom_session "PyStr ''code''" "PyStr ''vid''"]
  by (simp add: example_dispatch dom_dispatch failed_def)

section \<open>Order of the attempts and the first success\<close>

lemma continues_not_returned:
  "continues s m args kw h \<Longrightarrow>
     \<not> (is_available (cls h) \<and> (\<exists>res. call_method h m args kw = Returns res))"
  by (auto simp: continues_def failure_of_def split: if_splits call_result.splits exc.splits)

lemma returned_stops:
  "is_available (cls h) \<Longrightarrow> call_method h m args kw = Returns res \<Longrightarrow>
     \<not> continues s m args kw h \<and> stop_outcome m args kw h = Inr res \<and>
     handler_events m args kw h
       = [Is_available (JSI_KEY (cls h)) True,
          Call (JSI_KEY (cls h)) m args kw (Returns res)]"
  by (simp add: continues_def failure_of_def stop_outcome_def handler_events_def)

lemma stop_outcome_returned:
  "stop_outcome m args kw h = Inr res \<longleftrightarrow>
     is_available (cls h) \<and> call_method h m args kw = Returns res"
  by (auto simp: stop_outcome_def split: call_result.splits)

lemma passed_over_continues:
  "(\<not> is_available (cls p) \<and> \<not> is_test s) \<or>
   (is_available (cls p) \<and> (\<exists>e. call_method p m args kw = Raises (ExtractorError e)) \<and>
    JSI_KEY (cls p) \<in> set (fallback_jsi s)) \<Longrightarrow> continues s m args kw p"
  by (auto simp: continues_def failure_of_def)

text \<open>
  C1. For every wrapper that \<open>JSIWrapper_init\<close> returns and every request: the handlers
  chosen are the instances that implement the operation, each once, in descending order
  of their combined preference score. The events of the request are, handler by handler
  and in that order, the events of the handlers tried: the probe of the handler and, if
  it is available, the call of the operation on this very handler with its result. The
  handlers tried are the first ones of the list: those after which the loop goes on
  (unavailable outside test mode, or failed with the key in the fallback set), none of
  which returned a result, and then the first handler at which it stops. The request
  returns a result exactly when that handler is available and its call returned it; so
  when the handlers before a handler are all passed over and its call returns, the
  request returns this result and its events end with this call: no later candidate is
  probed or invoked.
\<close>

theorem dispatch_descending_first_success:
  assumes "JSIWrapper_init HANDLERS PREFERENCES dl u feature_list only_include exclude
             preferred_order fallback_jsi_arg t ua = (tr0, Inr s)"
    and "get_handlers s m args kw = Inr hs"
  shows "set hs = {h \<in> snd ` set (handler_dict s). methods (cls h) m \<noteq> None}
       \<and> distinct (map (\<lambda>h. JSI_KEY (cls h)) hs)
       \<and> sorted_wrt (\<lambda>a b. combined_preference s b m args kw
                              \<le> combined_preference s a m args kw) hs
       \<and> prefix (probed (trace (dispatch_request s m args kw)))
            (map (\<lambda>h. JSI_KEY (cls h)) hs)
       \<and> (\<forall>ev \<in> set (butlast (trace (dispatch_request s m args kw))). \<not> is_success ev)
       \<and> (\<forall>res. outcome (dispatch_request s m args kw) = Inr res \<longleftrightarrow>
             trace (dispatch_request s m args kw) \<noteq> [] \<and>
             (\<exists>k. last (trace (dispatch_request s m args kw))
                    = Call k m args kw (Returns res)))
       \<and> trace (dispatch_request s m args kw)
           = concat (map (handler_events m args kw)
               (takeWhile (continues s m args kw) hs
                  @ take 1 (dropWhile (continues s m args kw) hs)))
       \<and> prefix (takeWhile (continues s m args kw) hs
                  @ take 1 (dropWhile (continues s m args kw) hs)) hs
       \<and> (\<forall>h \<in> set (takeWhile (continues s m args kw) hs).
             \<not> (is_available (cls h) \<and> (\<exists>res. call_method h m args kw = Returns res)))
       \<and> (\<forall>res. outcome (dispatch_request s m args kw) = Inr res \<longleftrightarrow>
             (\<exists>h rest. dropWhile (continues s m args kw) hs = h # rest \<and>
                 is_available (cls h) \<and> call_method h m args kw = Returns res))
       \<and> (\<forall>pre h post res.
             hs = pre @ h # post \<and>
             (\<forall>p \<in> set pre.
                (\<not> is_available (cls p) \<and> \<not> is_test s) \<or>
                (is_available (cls p) \<and>
                 (\<exists>e. call_method p m args kw = Raises (ExtractorError e)) \<and>
                 JSI_KEY (cls p) \<in> set (fallback_jsi s))) \<and>
             is_available (cls h) \<and> call_method h m args kw = Returns res \<longrightarrow>
               outcome (dispatch_request s m args kw) = Inr res \<and>
               trace (dispatch_request s m args kw)
                 = concat (map (handler_events m args kw) pre)
                   @ [Is_available (JSI_KEY (cls h)) True,
                      Call (JSI_KEY (cls h)) m args kw (Returns res)])"
proof -
  let ?cands = "filter (\<lambda>h. methods (cls h) m \<noteq> None) (map snd (handler_dict s))"
  let ?C = "continues s m args kw"
  let ?r = "dispatch_request s m args kw"
  have keyed: "keyed (handler_dict s)"
    using assms(1) by (rule JSIWrapper_init_keyed)
  have hs: "hs = sorted_reverse (\<lambda>h. combined_preference s h m args kw) ?cands"
    using keyed assms(2) by (rule get_handlers_sorted)
  have req: "?r = dispatch_loop s m args kw hs [] []"
    by (simp add: dispatch_request_def assms(2))
  have "set hs = set ?cands"
    unfolding hs by (rule set_sorted_reverse)
  then have 1: "set hs = {h \<in> snd ` set (handler_dict s). methods (cls h) m \<noteq> None}"
    by auto
  have "distinct (map (\<lambda>h. JSI_KEY (cls h)) ?cands)"
    using keyed_distinct_keys [OF keyed] by (simp add: distinct_map_filter)
  then have 2: "distinct (map (\<lambda>h. JSI_KEY (cls h)) hs)"
    unfolding hs sorted_reverse_def by (simp add: distinct_map)
  have 3: "sorted_wrt (\<lambda>a b. combined_preference s b m args kw
                              \<le> combined_preference s a m args kw) hs"
    unfolding hs by (rule sorted_reverse_descending)
  have 4: "prefix (probed (trace ?r)) (map (\<lambda>h. JSI_KEY (cls h)) hs)"
    unfolding req loop_trace probed_concat_events
    by (rule map_mono_prefix) (rule prefix_tried)
  have 5: "\<forall>ev \<in> set (butlast (trace ?r)). \<not> is_success ev"
    unfolding req by (blast dest: loop_no_success_before_last)
  have 6: "\<forall>res. outcome ?r = Inr res \<longleftrightarrow>
             trace ?r \<noteq> [] \<and> (\<exists>k. last (trace ?r) = Call k m args kw (Returns res))"
    unfolding req by (rule allI) (rule loop_outcome_Inr)
  have 7: "trace ?r = concat (map (handler_events m args kw)
               (takeWhile ?C hs @ take 1 (dropWhile ?C hs)))"
    unfolding req by (rule loop_trace)
  have 8: "prefix (takeWhile ?C hs @ take 1 (dropWhile ?C hs)) hs"
    by (rule prefix_tried)
  have 9: "\<forall>h \<in> set (takeWhile ?C hs).
             \<not> (is_available (cls h) \<and> (\<exists>res. call_method h m args kw = Returns res))"
  proof
    fix h assume "h \<in> set (takeWhile ?C hs)"
    then have "?C h" by (auto dest: set_takeWhileD)
    then show "\<not> (is_available (cls h) \<and> (\<exists>res. call_method h m args kw = Returns res))"
      by (rule continues_not_returned)
  qed
  have 10: "\<forall>res. outcome ?r = Inr res \<longleftrightarrow>
             (\<exists>h rest. dropWhile ?C hs = h # rest \<and>
                 is_available (cls h) \<and> call_method h m args kw = Returns res)"
  proof
    fix res
    show "outcome ?r = Inr res \<longleftrightarrow>
             (\<exists>h rest. dropWhile ?C hs = h # rest \<and>
                 is_available (cls h) \<and> call_method h m args kw = Returns res)"
    proof (cases "dropWhile ?C hs")
      case Nil
      show ?thesis
        unfolding req loop_outcome Nil by simp
    next
      case (Cons h' rest')
      show ?thesis
        unfolding req loop_outcome Cons by (simp add: stop_outcome_returned)
    qed
  qed
  have 11: "outcome ?r = Inr res \<and>
            trace ?r = concat (map (handler_events m args kw) pre)
                   @ [Is_available (JSI_KEY (cls h)) True,
                      Call (JSI_KEY (cls h)) m args kw (Returns res)]"
    if split: "hs = pre @ h # post"
      and passed: "\<forall>p \<in> set pre.
                (\<not> is_available (cls p) \<and> \<not> is_test s) \<or>
                (is_available (cls p) \<and>
                 (\<exists>e. call_method p m args kw = Raises (ExtractorError e)) \<and>
                 JSI_KEY (cls p) \<in> set (fallback_jsi s))"
      and av: "is_available (cls h)" and ret: "call_method h m args kw = Returns res"
    for pre h post res
  proof -
    from passed have c: "\<And>p. p \<in> set pre \<Longrightarrow> ?C p"
      by (blast intro: passed_over_continues)
    from returned_stops [OF av ret, of s] have
      stop: "\<not> ?C h" and out: "stop_outcome m args kw h = Inr res" and
      evs: "handler_events m args kw h
              = [Is_available (JSI_KEY (cls h)) True,
                 Call (JSI_KEY (cls h)) m args kw (Returns res)]"
      by simp_all
    have tw: "takeWhile ?C hs = pre"
      unfolding split using c stop by (simp add: takeWhile_append2)
    have dw: "dropWhile ?C hs = h # post"
      unfolding split using c stop by (simp add: dropWhile_append2)
    have a: "outcome ?r = Inr res"
      unfolding req loop_outcome dw by (simp add: out)
    have b: "trace ?r = concat (map (handler_events m args kw) pre)
                   @ [Is_available (JSI_KEY (cls h)) True,
                      Call (JSI_KEY (cls h)) m args kw (Returns res)]"
      unfolding 7 tw dw by (simp add: evs)
    from a b show ?thesis ..
  qed
  have 12: "\<forall>pre h post res.
             hs = pre @ h # post \<and>
             (\<forall>p \<in> set pre.
                (\<not> is_available (cls p) \<and> \<not> is_test s) \<or>
                (is_available (cls p) \<and>
                 (\<exists>e. call_method p m args kw = Raises (ExtractorError e)) \<and>
                 JSI_KEY (cls p) \<in> set (fallback_jsi s))) \<and>
             is_available (cls h) \<and> call_method h m args kw = Returns res \<longrightarrow>
               outcome ?r = Inr res \<and>
               trace ?r = concat (map (handler_events m args kw) pre)
                   @ [Is_available (JSI_KEY (cls h)) True,
                      Call (JSI_KEY (cls h)) m args kw (Returns res)]"
    using 11 by blast
  from 1 2 3 4 5 6 show ?thesis
    using 7 8 9 10 12 by (intro conjI)
qed

theorem dispatch_descending_first_success_witness:
  "sorted_wrt (\<lambda>a b. combined_preference example_session b ''execute'' [] []
                       \<le> combined_preference example_session a ''execute'' [] [])
     [instance_of PhantomJSI, instance_of DenoJSI, instance_of DomOnlyJSI]
   \<and> prefix [''Phantom''] [''Phantom'', ''Deno'', ''DomOnly'']
   \<and> outcome (dispatch_request example_session ''execute'' [] []) = Inr ''stdout''
   \<and> trace (dispatch_request example_session ''execute'' [] [])
       = [Is_available ''Phantom'' True,
          Call ''Phantom'' ''execute'' [] [] (Returns ''stdout'')]"
proof -
  note all = dispatch_descending_first_success
      [OF example_init example_get_handlers, of "[]" "[]"]
  have sorted: "sorted_wrt (\<lambda>a b. combined_preference example_session b ''execute'' [] []
                       \<le> combined_preference example_session a ''execute'' [] [])
     [instance_of PhantomJSI, instance_of DenoJSI, instance_of DomOnlyJSI]"
    using all by blast
  have first: "\<forall>pre h post res.
             [instance_of PhantomJSI, instance_of DenoJSI, instance_of DomOnlyJSI]
               = pre @ h # post \<and>
             (\<forall>p \<in> set pre.
                (\<not> is_available (cls p) \<and> \<not> is_test example_session) \<or>
                (is_available (cls p) \<and>
                 (\<exists>e. call_method p ''execute'' [] [] = Raises (ExtractorError e)) \<and>
                 JSI_KEY (cls p) \<in> set (fallback_jsi example_session))) \<and>
             is_available (cls h) \<and> call_method h ''execute'' [] [] = Returns res \<longrightarrow>
               outcome (dispatch_request example_session ''execute'' [] []) = Inr res \<and>
               trace (dispatch_request example_session ''execute'' [] [])
                 = concat (map (handler_events ''execute'' [] []) pre)
                   @ [Is_available (JSI_KEY (cls h)) True,
                      Call (JSI_KEY (cls h)) ''execute'' [] [] (Returns res)]"
    using all by blast
  from first [rule_format, of "[]" "instance_of PhantomJSI"
      "[instance_of DenoJSI, instance_of DomOnlyJSI]" "''stdout''"]
  have "outcome (dispatch_request example_session ''execute'' [] []) = Inr ''stdout'' \<and>
        trace (dispatch_request example_session ''execute'' [] [])
          = [Is_available ''Phantom'' True,
             Call ''Phantom'' ''execute'' [] [] (Returns ''stdout'')]"
    by (simp add: call_method_def ok_execute_def)
  with sorted show ?thesis by simp
qed

section \<open>A failed call: fallback or propagation\<close>

lemma map_filter_append:
  "List.map_filter f (xs @ ys) = List.map_filter f xs @ List.map_filter f ys"
  by (simp add: map_filter_def)

lemma tried_starts_with_first:
  "\<exists>more. takeWhile P (x # xs) @ take 1 (dropWhile P (x # xs)) = x # more"
  by simp

text \<open>
  C2. For every wrapper that \<open>JSIWrapper_init\<close> returns with the fallback argument
  \<open>fallback_jsi_arg\<close>, every request with the chosen handlers \<open>pre @ h # post\<close>, and the
  call on \<open>h\<close> having raised the \<open>ExtractorError\<close> \<open>e\<close> during the request.

  If \<open>h\<close> is in the fallback set (the argument is \<open>'all'\<close>, or the key of \<open>h\<close> is among the
  keys of the argument), the pair \<open>(h, e)\<close> is among the recorded exceptions and the next
  chosen handler is tried: the events of the request go on, after the failed call, with
  the probe of the next handler and, if it is available, the call of the operation on it;
  if that call returns, its result is the result of the request and its last event. If
  there is no next handler, the request ends after the failed call with the aggregated
  error that counts the recorded exceptions, of which \<open>(h, e)\<close> is the last.

  Otherwise the request ends with \<open>e\<close>, the failed call is its last event, and the
  handlers probed are those up to \<open>h\<close>, so that no later candidate is probed or invoked.
\<close>

theorem failure_falls_back_or_propagates:
  assumes "JSIWrapper_init HANDLERS PREFERENCES dl u feature_list only_include exclude
             preferred_order fallback_jsi_arg t ua = (tr0, Inr s)"
    and "get_handlers s m args kw = Inr (pre @ h # post)"
    and "Call (JSI_KEY (cls h)) m args kw (Raises (ExtractorError e))
           \<in> set (trace (dispatch_request s m args kw))"
  shows "((case fallback_jsi_arg of
             Fallback_all \<Rightarrow> True
           | Fallback keys \<Rightarrow> JSI_KEY (cls h) \<in> set (get_jsi_keys keys)) \<longrightarrow>
            (h, e) \<in> set (exceptions (dispatch_request s m args kw)) \<and>
            (\<forall>nxt rest. post = nxt # rest \<longrightarrow>
               Is_available (JSI_KEY (cls nxt)) (is_available (cls nxt))
                 \<in> set (trace (dispatch_request s m args kw))) \<and>
            (\<forall>nxt rest. post = nxt # rest \<longrightarrow>
               prefix (concat (map (handler_events m args kw) pre)
                        @ [Is_available (JSI_KEY (cls h)) True,
                           Call (JSI_KEY (cls h)) m args kw (Raises (ExtractorError e))]
                        @ handler_events m args kw nxt)
                 (trace (dispatch_request s m args kw)) \<and>
               (\<forall>res. is_available (cls nxt) \<and> call_method nxt m args kw = Returns res \<longrightarrow>
                  outcome (dispatch_request s m args kw) = Inr res \<and>
                  trace (dispatch_request s m args kw)
                    = concat (map (handler_events m args kw) pre)
                      @ [Is_available (JSI_KEY (cls h)) True,
                         Call (JSI_KEY (cls h)) m args kw (Raises (ExtractorError e)),
                         Is_available (JSI_KEY (cls nxt)) True,
                         Call (JSI_KEY (cls nxt)) m args kw (Returns res)])) \<and>
            (post = [] \<longrightarrow>
               trace (dispatch_request s m args kw)
                 = concat (map (handler_events m args kw) pre)
                   @ [Is_available (JSI_KEY (cls h)) True,
                      Call (JSI_KEY (cls h)) m args kw (Raises (ExtractorError e))] \<and>
               last (exceptions (dispatch_request s m args kw)) = (h, e) \<and>
               outcome (dispatch_request s m args kw)
                 = Inl (ExtractorError
                     (if unavailable (dispatch_request s m args kw) = []
                      then Failed_to_perform m
                             (length (exceptions (dispatch_request s m args kw)))
                      else Failed_to_perform_try_installing m
                             (length (exceptions (dispatch_request s m args kw)))
                             (unavailable (dispatch_request s m args kw))))))
       \<and> (\<not> (case fallback_jsi_arg of
               Fallback_all \<Rightarrow> True
             | Fallback keys \<Rightarrow> JSI_KEY (cls h) \<in> set (get_jsi_keys keys)) \<longrightarrow>
            outcome (dispatch_request s m args kw) = Inl (ExtractorError e) \<and>
            last (trace (dispatch_request s m args kw))
              = Call (JSI_KEY (cls h)) m args kw (Raises (ExtractorError e)) \<and>
            probed (trace (dispatch_request s m args kw))
              = map (\<lambda>h. JSI_KEY (cls h)) (pre @ [h]) \<and>
            trace (dispatch_request s m args kw)
              = concat (map (handler_events m args kw) pre)
                @ [Is_available (JSI_KEY (cls h)) True,
                   Call (JSI_KEY (cls h)) m args kw (Raises (ExtractorError e))])"
proof -
  let ?hs = "pre @ h # post"
  let ?C = "continues s m args kw"
  let ?T = "takeWhile ?C ?hs @ take 1 (dropWhile ?C ?hs)"
  let ?r = "dispatch_request s m args kw"
  let ?ev = "handler_events m args kw"
  let ?failed = "[Is_available (JSI_KEY (cls h)) True,
                  Call (JSI_KEY (cls h)) m args kw (Raises (ExtractorError e))]"
  let ?allowed = "case fallback_jsi_arg of
             Fallback_all \<Rightarrow> True
           | Fallback keys \<Rightarrow> JSI_KEY (cls h) \<in> set (get_jsi_keys keys)"
  have keyed: "keyed (handler_dict s)"
    using assms(1) by (rule JSIWrapper_init_keyed)
  have hs: "?hs = sorted_reverse (\<lambda>h. combined_preference s h m args kw)
                    (filter (\<lambda>h. methods (cls h) m \<noteq> None) (map snd (handler_dict s)))"
    using keyed assms(2) by (rule get_handlers_sorted)
  have req: "?r = dispatch_loop s m args kw ?hs [] []"
    by (simp add: dispatch_request_def assms(2))
  have "distinct (map (\<lambda>h. JSI_KEY (cls h))
          (filter (\<lambda>h. methods (cls h) m \<noteq> None) (map snd (handler_dict s))))"
    using keyed_distinct_keys [OF keyed] by (simp add: distinct_map_filter)
  then have dk: "distinct (map (\<lambda>h. JSI_KEY (cls h)) ?hs)"
    unfolding hs sorted_reverse_def by (simp add: distinct_map)
  then have d: "distinct ?hs"
    by (simp only: distinct_map)
  have "h \<in> set ?hs" by simp
  then have "h \<in> set (map snd (handler_dict s))"
    unfolding hs by simp
  then have member: "h \<in> snd ` set (handler_dict s)"
    by simp
  have fb: "JSI_KEY (cls h) \<in> set (fallback_jsi s) \<longleftrightarrow> ?allowed"
    using assms(1) member by (rule JSIWrapper_init_fallback)
  have sub: "set ?T \<subseteq> set ?hs"
    using prefix_tried [of ?C ?hs] by (rule set_mono_prefix)
  have ev: "Call (JSI_KEY (cls h)) m args kw (Raises (ExtractorError e))
              \<in> set (concat (map ?ev ?T))"
    using assms(3) unfolding req loop_trace .
  have "h \<in> set ?T \<and> is_available (cls h)
          \<and> Raises (ExtractorError e) = call_method h m args kw"
    using dk sub _ ev by (rule call_event_handler) simp
  then have tried: "h \<in> set ?T" and av: "is_available (cls h)"
    and res: "call_method h m args kw = Raises (ExtractorError e)"
    by simp_all
  have fail: "failure_of m args kw h = Some (h, e)"
    by (simp add: failure_of_def av res)
  have cont: "?C h \<longleftrightarrow> ?allowed"
    by (simp add: continues_def av fail fb)
  have evs: "?ev h = ?failed"
    by (simp add: handler_events_def av res)
  have yes: "(h, e) \<in> set (exceptions ?r) \<and>
            (\<forall>nxt rest. post = nxt # rest \<longrightarrow>
               Is_available (JSI_KEY (cls nxt)) (is_available (cls nxt)) \<in> set (trace ?r)) \<and>
            (\<forall>nxt rest. post = nxt # rest \<longrightarrow>
               prefix (concat (map ?ev pre) @ ?failed @ ?ev nxt) (trace ?r) \<and>
               (\<forall>res. is_available (cls nxt) \<and> call_method nxt m args kw = Returns res \<longrightarrow>
                  outcome ?r = Inr res \<and>
                  trace ?r
                    = concat (map ?ev pre)
                      @ [Is_available (JSI_KEY (cls h)) True,
                         Call (JSI_KEY (cls h)) m args kw (Raises (ExtractorError e)),
                         Is_available (JSI_KEY (cls nxt)) True,
                         Call (JSI_KEY (cls nxt)) m args kw (Returns res)])) \<and>
            (post = [] \<longrightarrow>
               trace ?r = concat (map ?ev pre) @ ?failed \<and>
               last (exceptions ?r) = (h, e) \<and>
               outcome ?r
                 = Inl (ExtractorError
                     (if unavailable ?r = []
                      then Failed_to_perform m (length (exceptions ?r))
                      else Failed_to_perform_try_installing m (length (exceptions ?r))
                             (unavailable ?r))))"
    if "?allowed"
  proof -
    from that cont have c: "?C h" by simp
    with tried have tw: "h \<in> set (takeWhile ?C ?hs)"
      by (rule tried_continues)
    from takeWhile_reaches [OF d tw] have
      reach_t: "takeWhile ?C ?hs = pre @ h # takeWhile ?C post" and
      reach_d: "dropWhile ?C ?hs = dropWhile ?C post"
      by simp_all
    have tr: "trace ?r = concat (map ?ev pre) @ ?failed
                @ concat (map ?ev (takeWhile ?C post @ take 1 (dropWhile ?C post)))"
      unfolding req loop_trace reach_t reach_d by (simp add: evs)
    have excs: "exceptions ?r
                  = List.map_filter (failure_of m args kw) pre
                    @ (h, e) # List.map_filter (failure_of m args kw) (takeWhile ?C post)"
      unfolding req loop_exceptions reach_t
      by (simp add: map_filter_append map_filter_simps fail)
    have 1: "(h, e) \<in> set (exceptions ?r)"
      unfolding excs by simp
    have 2: "Is_available (JSI_KEY (cls nxt)) (is_available (cls nxt)) \<in> set (trace ?r)"
      if post: "post = nxt # rest" for nxt rest
    proof -
      have "nxt \<in> set (takeWhile ?C (pre @ h # nxt # rest)
                        @ take 1 (dropWhile ?C (pre @ h # nxt # rest)))"
        using d tw unfolding post by (rule tried_next)
      then have "nxt \<in> set ?T"
        unfolding post .
      moreover have "Is_available (JSI_KEY (cls nxt)) (is_available (cls nxt))
                       \<in> set (?ev nxt)"
        by (simp add: handler_events_def)
      ultimately show ?thesis
        unfolding req loop_trace by auto
    qed
    have 3: "prefix (concat (map ?ev pre) @ ?failed @ ?ev nxt) (trace ?r) \<and>
               (\<forall>res. is_available (cls nxt) \<and> call_method nxt m args kw = Returns res \<longrightarrow>
                  outcome ?r = Inr res \<and>
                  trace ?r
                    = concat (map ?ev pre)
                      @ [Is_available (JSI_KEY (cls h)) True,
                         Call (JSI_KEY (cls h)) m args kw (Raises (ExtractorError e)),
                         Is_available (JSI_KEY (cls nxt)) True,
                         Call (JSI_KEY (cls nxt)) m args kw (Returns res)])"
      if post: "post = nxt # rest" for nxt rest
    proof -
      obtain more where more:
        "takeWhile ?C post @ take 1 (dropWhile ?C post) = nxt # more"
        unfolding post using tried_starts_with_first [of ?C nxt rest] by blast
      have a: "prefix (concat (map ?ev pre) @ ?failed @ ?ev nxt) (trace ?r)"
        unfolding tr more by simp
      have b: "outcome ?r = Inr res \<and>
                  trace ?r
                    = concat (map ?ev pre)
                      @ [Is_available (JSI_KEY (cls h)) True,
                         Call (JSI_KEY (cls h)) m args kw (Raises (ExtractorError e)),
                         Is_available (JSI_KEY (cls nxt)) True,
                         Call (JSI_KEY (cls nxt)) m args kw (Returns res)]"
        if nav: "is_available (cls nxt)" and ret: "call_method nxt m args kw = Returns res"
        for res
      proof -
        from returned_stops [OF nav ret, of s] have
          stop: "\<not> ?C nxt" and out: "stop_outcome m args kw nxt = Inr res" and
          nev: "?ev nxt = [Is_available (JSI_KEY (cls nxt)) True,
                           Call (JSI_KEY (cls nxt)) m args kw (Returns res)]"
          by simp_all
        from stop have tw': "takeWhile ?C post = []" and dw': "dropWhile ?C post = nxt # rest"
          unfolding post by simp_all
        have "outcome ?r = Inr res"
          unfolding req loop_outcome reach_d dw' by (simp add: out)
        moreover have "trace ?r
                    = concat (map ?ev pre)
                      @ [Is_available (JSI_KEY (cls h)) True,
                         Call (JSI_KEY (cls h)) m args kw (Raises (ExtractorError e)),
                         Is_available (JSI_KEY (cls nxt)) True,
                         Call (JSI_KEY (cls nxt)) m args kw (Returns res)]"
          unfolding tr tw' dw' by (simp add: nev)
        ultimately show ?thesis ..
      qed
      from a b show ?thesis by blast
    qed
    have 4: "trace ?r = concat (map ?ev pre) @ ?failed \<and>
               last (exceptions ?r) = (h, e) \<and>
               outcome ?r
                 = Inl (ExtractorError
                     (if unavailable ?r = []
                      then Failed_to_perform m (length (exceptions ?r))
                      else Failed_to_perform_try_installing m (length (exceptions ?r))
                             (unavailable ?r)))"
      if post: "post = []"
    proof -
      have a: "trace ?r = concat (map ?ev pre) @ ?failed"
        unfolding tr post by simp
      have e': "exceptions ?r = List.map_filter (failure_of m args kw) pre @ [(h, e)]"
        unfolding excs post by (simp add: map_filter_simps)
      then have b: "last (exceptions ?r) = (h, e)"
        by simp
      have all: "\<forall>x \<in> set ?hs. ?C x"
        using reach_t unfolding post
        by (metis append_Nil2 set_takeWhileD takeWhile.simps(1) takeWhile_eq_all_conv)
      have una: "unavailable ?r
                   = map (\<lambda>h. JSI_NAME (cls h)) (filter (\<lambda>h. \<not> is_available (cls h)) ?hs)"
        unfolding req by (rule loop_all_continue(2) [OF all])
      have ex: "exceptions ?r = List.map_filter (failure_of m args kw) ?hs"
        unfolding req by (rule loop_all_continue(3) [OF all])
      have "outcome ?r = Inl (exhausted m (unavailable ?r) (exceptions ?r))"
        unfolding una ex unfolding req by (rule loop_all_continue(1) [OF all])
      then have c: "outcome ?r
                 = Inl (ExtractorError
                     (if unavailable ?r = []
                      then Failed_to_perform m (length (exceptions ?r))
                      else Failed_to_perform_try_installing m (length (exceptions ?r))
                             (unavailable ?r)))"
        using e' by (simp add: exhausted_def)
      from a b c show ?thesis by blast
    qed
    from 1 2 3 4 show ?thesis by blast
  qed
  have no: "outcome ?r = Inl (ExtractorError e) \<and>
            last (trace ?r) = Call (JSI_KEY (cls h)) m args kw (Raises (ExtractorError e)) \<and>
            probed (trace ?r) = map (\<lambda>h. JSI_KEY (cls h)) (pre @ [h]) \<and>
            trace ?r = concat (map ?ev pre) @ ?failed"
    if "\<not> ?allowed"
  proof -
    from that cont have c: "\<not> ?C h" by simp
    with d tried have split: "takeWhile ?C ?hs = pre \<and> dropWhile ?C ?hs = h # post"
      by (rule tried_stops)
    have 1: "outcome ?r = Inl (ExtractorError e)"
      unfolding req loop_outcome by (simp add: split stop_outcome_def av res)
    have tr: "trace ?r = concat (map ?ev pre) @ ?ev h"
      unfolding req loop_trace by (simp add: split)
    have 2: "last (trace ?r) = Call (JSI_KEY (cls h)) m args kw (Raises (ExtractorError e))"
      unfolding tr evs by simp
    have 3: "probed (trace ?r) = map (\<lambda>h. JSI_KEY (cls h)) (pre @ [h])"
      unfolding tr by (simp add: probed_concat_events)
    have 4: "trace ?r = concat (map ?ev pre) @ ?failed"
      unfolding tr evs ..
    from 1 2 3 4 show ?thesis by blast
  qed
  from yes no show ?thesis by blast
qed

lemma failing_missing_dispatch:
  "dispatch_request (wrapper_over example_downloader [FailingJSI, MissingJSI]
        [''Failing'', ''Missing'']) ''execute'' args kw =
     \<lparr>outcome = Inl (ExtractorError
                  (Failed_to_perform_try_installing ''execute'' 1 [''Missing''])),
      trace = [Is_available ''Missing'' False, Is_available ''Failing'' True,
               Call ''Failing'' ''execute'' args kw
                 (Raises (ExtractorError (Backend_error ''boom'')))],
      unavailable = [''Missing''],
      exceptions = [(instance_of FailingJSI, Backend_error ''boom'')]\<rparr>"
  by (simp add: dispatch_request_def failing_missing_get_handlers call_method_def
      failing_execute_def after_def)

theorem failure_falls_back_or_propagates_witness:
  "(instance_of FailingJSI, Backend_error ''boom'')
      \<in> set (exceptions (dispatch_request
           (wrapper_over example_downloader [FailingJSI, MissingJSI, DenoJSI] [''Failing''])
           ''execute'' [] []))
   \<and> Is_available ''Deno'' True
      \<in> set (trace (dispatch_request
           (wrapper_over example_downloader [FailingJSI, MissingJSI, DenoJSI] [''Failing''])
           ''execute'' [] []))
   \<and> outcome (dispatch_request
         (wrapper_over example_downloader [FailingJSI, MissingJSI, DenoJSI] [''Failing''])
         ''execute'' [] []) = Inr ''stdout''
   \<and> trace (dispatch_request
         (wrapper_over example_downloader [FailingJSI, MissingJSI, DenoJSI] [''Failing''])
         ''execute'' [] [])
       = [Is_available ''Missing'' False, Is_available ''Failing'' True,
          Call ''Failing'' ''execute'' [] [] (Raises (ExtractorError (Backend_error ''boom''))),
          Is_available ''Deno'' True,
          Call ''Deno'' ''execute'' [] [] (Returns ''stdout'')]
   \<and> outcome (dispatch_request
         (wrapper_over example_downloader [FailingJSI, MissingJSI, DenoJSI] [])
         ''execute'' [] []) = Inl (ExtractorError (Backend_error ''boom''))
   \<and> probed (trace (dispatch_request
         (wrapper_over example_downloader [FailingJSI, MissingJSI, DenoJSI] [])
         ''execute'' [] [])) = [''Missing'', ''Failing'']
   \<and> outcome (dispatch_request
         (wrapper_over example_downloader [FailingJSI, MissingJSI] [''Failing'', ''Missing''])
         ''execute'' [] [])
       = Inl (ExtractorError (Failed_to_perform_try_installing ''execute'' 1 [''Missing'']))"
  using failure_falls_back_or_propagates
      [OF failing_init [of "[JStr ''Failing'']"],
       of "''execute''" "[]" "[]" "[instance_of MissingJSI]" "instance_of FailingJSI"
          "[instance_of DenoJSI]" "Backend_error ''boom''"]
    failure_falls_back_or_propagates
      [OF failing_init [of "[]"],
       of "''execute''" "[]" "[]" "[instance_of MissingJSI]" "instance_of FailingJSI"
          "[instance_of DenoJSI]" "Backend_error ''boom''"]
    failure_falls_back_or_propagates
      [OF failing_init_excluding,
       of "''execute''" "[]" "[]" "[instance_of MissingJSI]" "instance_of FailingJSI"
          "[]" "Backend_error ''boom''"]
  by (simp add: failing_get_handlers failing_missing_get_handlers failing_dispatch_fallback
      failing_dispatch_strict failing_missing_dispatch get_jsi_keys_def)

section \<open>Unavailable candidates: the aggregated error and strict mode\<close>

lemma get_handlers_not_Nil: "get_handlers s m args kw = Inr hs \<Longrightarrow> hs \<noteq> []"
proof -
  let ?cands = "filter (\<lambda>h. methods (cls h) m \<noteq> None) (map snd (handler_dict s))"
  assume g: "get_handlers s m args kw = Inr hs"
  then have ne: "?cands \<noteq> []"
    unfolding get_handlers_def Let_def by (cases "?cands = []") simp_all
  have hs: "hs = sorted_reverse
            (\<lambda>h. dict_get (preference_dict s m args kw ?cands) (JSI_KEY (cls h))) ?cands"
    using g ne unfolding get_handlers_def Let_def by (simp only: if_False sum.inject)
  have len: "length hs = length ?cands"
    unfolding hs by (rule length_sorted_reverse)
  show ?thesis
  proof
    assume "hs = []"
    with len have "length ?cands = 0"
      by (simp only: list.size)
    then have "?cands = []"
      by (simp only: length_0_conv)
    with ne show False ..
  qed
qed

text \<open>
  C4, amended. For every wrapper and every request with the chosen handlers \<open>hs\<close>.

  Outside strict/test mode: if all of them are unavailable, the request fails with the
  aggregated error \<open>No available JSI installed\<close> that lists all of them, in the order
  tried, as unavailable, the list of failed attempts is empty and no operation was called;
  if every one of them is unavailable or raised an \<open>ExtractorError\<close> with its key in the
  fallback set, and there are both kinds, the request fails with the aggregated error
  \<open>Failed to perform\<close> that counts the failed attempts and suggests installing one of the
  unavailable backends, which it lists.

  In strict/test mode: the first unavailable handler that the loop reaches (the handlers
  before it having failed with their keys in the fallback set) ends the request with the
  error \<open>is not available for testing\<close> that names this backend, right after its probe,
  and nothing is listed as unavailable; in particular, if all handlers are unavailable
  the request ends so at the first of them, with no failed attempt and no other handler
  probed.
\<close>

theorem exhausted_or_strict_mode:
  assumes "get_handlers s m args kw = Inr hs"
  shows "(\<not> is_test s \<longrightarrow>
          ((\<forall>h \<in> set hs. \<not> is_available (cls h)) \<longrightarrow>
            outcome (dispatch_request s m args kw)
              = Inl (ExtractorError (No_available_JSI (map (\<lambda>h. JSI_NAME (cls h)) hs))) \<and>
            unavailable (dispatch_request s m args kw) = map (\<lambda>h. JSI_NAME (cls h)) hs \<and>
            exceptions (dispatch_request s m args kw) = [] \<and>
            (\<forall>ev \<in> set (trace (dispatch_request s m args kw)). \<not> is_call ev))
        \<and> ((\<forall>h \<in> set hs. \<not> is_available (cls h) \<or>
               (\<exists>e. call_method h m args kw = Raises (ExtractorError e)) \<and>
               JSI_KEY (cls h) \<in> set (fallback_jsi s)) \<and>
           (\<exists>h \<in> set hs. is_available (cls h)) \<and> (\<exists>h \<in> set hs. \<not> is_available (cls h)) \<longrightarrow>
            outcome (dispatch_request s m args kw)
              = Inl (ExtractorError (Failed_to_perform_try_installing m
                       (length (filter (\<lambda>h. is_available (cls h)) hs))
                       (map (\<lambda>h. JSI_NAME (cls h)) (filter (\<lambda>h. \<not> is_available (cls h)) hs)))) \<and>
            unavailable (dispatch_request s m args kw)
              = map (\<lambda>h. JSI_NAME (cls h)) (filter (\<lambda>h. \<not> is_available (cls h)) hs) \<and>
            map fst (exceptions (dispatch_request s m args kw))
              = filter (\<lambda>h. is_available (cls h)) hs))
       \<and> (is_test s \<longrightarrow>
          ((\<forall>h \<in> set hs. \<not> is_available (cls h)) \<longrightarrow>
            outcome (dispatch_request s m args kw)
              = Inl (ExtractorError (Not_available_for_testing
                       (JSI_NAME (cls (hd hs))) (JSI_KEY (cls (hd hs))))) \<and>
            trace (dispatch_request s m args kw) = [Is_available (JSI_KEY (cls (hd hs))) False] \<and>
            unavailable (dispatch_request s m args kw) = [] \<and>
            exceptions (dispatch_request s m args kw) = [])
        \<and> (\<forall>pre h post.
              hs = pre @ h # post \<and> \<not> is_available (cls h) \<and>
              (\<forall>p \<in> set pre. is_available (cls p) \<and>
                 (\<exists>e. call_method p m args kw = Raises (ExtractorError e)) \<and>
                 JSI_KEY (cls p) \<in> set (fallback_jsi s)) \<longrightarrow>
                outcome (dispatch_request s m args kw)
                  = Inl (ExtractorError (Not_available_for_testing
                           (JSI_NAME (cls h)) (JSI_KEY (cls h)))) \<and>
                trace (dispatch_request s m args kw)
                  = concat (map (handler_events m args kw) pre)
                    @ [Is_available (JSI_KEY (cls h)) False] \<and>
                unavailable (dispatch_request s m args kw) = []))"
proof -
  let ?r = "dispatch_request s m args kw"
  let ?C = "continues s m args kw"
  have req: "?r = dispatch_loop s m args kw hs [] []"
    by (simp add: dispatch_request_def assms)
  have first: "outcome ?r = Inl (ExtractorError (No_available_JSI (map (\<lambda>h. JSI_NAME (cls h)) hs))) \<and>
            unavailable ?r = map (\<lambda>h. JSI_NAME (cls h)) hs \<and>
            exceptions ?r = [] \<and>
            (\<forall>ev \<in> set (trace ?r). \<not> is_call ev)"
    if nt: "\<not> is_test s" and una: "\<forall>h \<in> set hs. \<not> is_available (cls h)"
  proof -
    from una nt have c: "\<forall>h \<in> set hs. continues s m args kw h"
      by (simp add: continues_def)
    from una have f: "filter (\<lambda>h. \<not> is_available (cls h)) hs = hs"
      by simp
    have none: "List.map_filter (failure_of m args kw) hs = []"
      using una by (rule no_failures_of_unavailable)
    have 1: "outcome ?r = Inl (ExtractorError (No_available_JSI (map (\<lambda>h. JSI_NAME (cls h)) hs)))"
      unfolding req loop_all_continue(1) [OF c] f none by (simp add: exhausted_def)
    have 2: "unavailable ?r = map (\<lambda>h. JSI_NAME (cls h)) hs"
      unfolding req loop_all_continue(2) [OF c] f ..
    have 3: "exceptions ?r = []"
      unfolding req loop_all_continue(3) [OF c] none ..
    have 4: "\<forall>ev \<in> set (trace ?r). \<not> is_call ev"
      unfolding req loop_all_continue(4) [OF c] using una
      by (auto simp: handler_events_def)
    from 1 2 3 4 show ?thesis by blast
  qed
  have second: "outcome ?r
              = Inl (ExtractorError (Failed_to_perform_try_installing m
                       (length (filter (\<lambda>h. is_available (cls h)) hs))
                       (map (\<lambda>h. JSI_NAME (cls h)) (filter (\<lambda>h. \<not> is_available (cls h)) hs)))) \<and>
            unavailable ?r
              = map (\<lambda>h. JSI_NAME (cls h)) (filter (\<lambda>h. \<not> is_available (cls h)) hs) \<and>
            map fst (exceptions ?r) = filter (\<lambda>h. is_available (cls h)) hs"
    if nt: "\<not> is_test s"
      and all: "\<forall>h \<in> set hs. \<not> is_available (cls h) \<or>
               (\<exists>e. call_method h m args kw = Raises (ExtractorError e)) \<and>
               JSI_KEY (cls h) \<in> set (fallback_jsi s)"
      and some_av: "\<exists>h \<in> set hs. is_available (cls h)"
      and some_una: "\<exists>h \<in> set hs. \<not> is_available (cls h)"
  proof -
    from all nt have c: "\<forall>h \<in> set hs. continues s m args kw h"
      by (auto simp: continues_def failure_of_def)
    have fs: "map fst (List.map_filter (failure_of m args kw) hs)
                = filter (\<lambda>h. is_available (cls h)) hs"
      using c by (rule failures_of_continuing)
    then have len: "length (List.map_filter (failure_of m args kw) hs)
                = length (filter (\<lambda>h. is_available (cls h)) hs)"
      by (metis length_map)
    from some_av have ne1: "filter (\<lambda>h. is_available (cls h)) hs \<noteq> []"
      by (simp add: filter_empty_conv)
    with len have ne1': "List.map_filter (failure_of m args kw) hs \<noteq> []"
      by auto
    from some_una have ne2: "filter (\<lambda>h. \<not> is_available (cls h)) hs \<noteq> []"
      by (simp add: filter_empty_conv)
    have 1: "outcome ?r
              = Inl (ExtractorError (Failed_to_perform_try_installing m
                       (length (filter (\<lambda>h. is_available (cls h)) hs))
                       (map (\<lambda>h. JSI_NAME (cls h)) (filter (\<lambda>h. \<not> is_available (cls h)) hs))))"
      unfolding req loop_all_continue(1) [OF c] using ne1' ne2 len
      by (simp add: exhausted_def)
    have 2: "unavailable ?r
              = map (\<lambda>h. JSI_NAME (cls h)) (filter (\<lambda>h. \<not> is_available (cls h)) hs)"
      unfolding req by (rule loop_all_continue(2) [OF c])
    have 3: "map fst (exceptions ?r) = filter (\<lambda>h. is_available (cls h)) hs"
      unfolding req loop_all_continue(3) [OF c] by (rule fs)
    from 1 2 3 show ?thesis by blast
  qed
  have strict: "outcome ?r
                  = Inl (ExtractorError (Not_available_for_testing
                           (JSI_NAME (cls h)) (JSI_KEY (cls h)))) \<and>
                trace ?r = concat (map (handler_events m args kw) pre)
                    @ [Is_available (JSI_KEY (cls h)) False] \<and>
                unavailable ?r = [] \<and>
                exceptions ?r = List.map_filter (failure_of m args kw) pre"
    if t: "is_test s" and split: "hs = pre @ h # post" and una: "\<not> is_available (cls h)"
      and passed: "\<forall>p \<in> set pre. is_available (cls p) \<and>
                 (\<exists>e. call_method p m args kw = Raises (ExtractorError e)) \<and>
                 JSI_KEY (cls p) \<in> set (fallback_jsi s)"
    for pre h post
  proof -
    from passed have c: "\<And>p. p \<in> set pre \<Longrightarrow> ?C p"
      by (blast intro: passed_over_continues)
    from t una have stop: "\<not> ?C h"
      by (simp add: continues_def)
    have tw: "takeWhile ?C hs = pre"
      unfolding split using c stop by (simp add: takeWhile_append2)
    have dw: "dropWhile ?C hs = h # post"
      unfolding split using c stop by (simp add: dropWhile_append2)
    from passed have av: "filter (\<lambda>h. \<not> is_available (cls h)) pre = []"
      by (simp add: filter_empty_conv)
    have 1: "outcome ?r = Inl (ExtractorError (Not_available_for_testing
                           (JSI_NAME (cls h)) (JSI_KEY (cls h))))"
      unfolding req loop_outcome dw by (simp add: stop_outcome_def una)
    have 2: "trace ?r = concat (map (handler_events m args kw) pre)
                    @ [Is_available (JSI_KEY (cls h)) False]"
      unfolding req loop_trace tw dw by (simp add: handler_events_def una)
    have 3: "unavailable ?r = []"
      unfolding req loop_unavailable tw av by simp
    have 4: "exceptions ?r = List.map_filter (failure_of m args kw) pre"
      unfolding req loop_exceptions tw by simp
    from 1 2 3 4 show ?thesis by blast
  qed
  have strict_all: "outcome ?r
              = Inl (ExtractorError (Not_available_for_testing
                       (JSI_NAME (cls (hd hs))) (JSI_KEY (cls (hd hs))))) \<and>
            trace ?r = [Is_available (JSI_KEY (cls (hd hs))) False] \<and>
            unavailable ?r = [] \<and> exceptions ?r = []"
    if t: "is_test s" and una: "\<forall>h \<in> set hs. \<not> is_available (cls h)"
  proof -
    from assms have "hs \<noteq> []"
      by (rule get_handlers_not_Nil)
    then have split: "hs = [] @ hd hs # tl hs"
      by simp
    from \<open>hs \<noteq> []\<close> una have "\<not> is_available (cls (hd hs))"
      by simp
    from strict [OF t split this] show ?thesis
      by (simp add: map_filter_simps)
  qed
  from first second strict strict_all show ?thesis
    by blast
qed

theorem exhausted_or_strict_mode_witness:
  "outcome (dispatch_request (wrapper_over example_downloader [AbsentJSI, MissingJSI] [])
       ''execute'' [] [])
     = Inl (ExtractorError (No_available_JSI [''Missing'', ''Absent'']))
   \<and> exceptions (dispatch_request (wrapper_over example_downloader [AbsentJSI, MissingJSI] [])
       ''execute'' [] []) = []
   \<and> outcome (dispatch_request (wrapper_over example_downloader [FailingJSI, MissingJSI]
        [''Failing'', ''Missing'']) ''execute'' [] [])
     = Inl (ExtractorError (Failed_to_perform_try_installing ''execute'' 1 [''Missing'']))
   \<and> outcome (dispatch_request (wrapper_over testing_downloader [AbsentJSI, MissingJSI] [])
       ''execute'' [] [])
     = Inl (ExtractorError (Not_available_for_testing ''Missing'' ''Missing''))
   \<and> trace (dispatch_request (wrapper_over testing_downloader [AbsentJSI, MissingJSI] [])
       ''execute'' [] []) = [Is_available ''Missing'' False]"
  using exhausted_or_strict_mode
      [of "wrapper_over example_downloader [AbsentJSI, MissingJSI] []" "''execute''" "[]" "[]"
          "[instance_of MissingJSI, instance_of AbsentJSI]"]
    exhausted_or_strict_mode
      [of "wrapper_over example_downloader [FailingJSI, MissingJSI] [''Failing'', ''Missing'']"
          "''execute''" "[]" "[]" "[instance_of MissingJSI, instance_of FailingJSI]"]
    exhausted_or_strict_mode
      [of "wrapper_over testing_downloader [AbsentJSI, MissingJSI] []" "''execute''" "[]" "[]"
          "[instance_of MissingJSI, instance_of AbsentJSI]"]
  by (simp add: missing_get_handlers failing_missing_get_handlers call_method_def
      failing_execute_def)

end
